theory Spec2Isabelle
  imports Complex_Main "HOL-Library.Word"
begin

unbundle bit_operations_syntax

section \<open>The visual pipeline of src/lib/visual.cpp\<close>

text \<open>
  A shallow embedding of \<^verbatim>\<open>src/lib/visual.cpp\<close>. A C \<^verbatim>\<open>int\<close> is an \<open>int\<close>;
  where a result can leave the 32-bit range and a property depends on it, the
  two's-complement wrap-around is written out with \<open>s32\<close>. A \<^verbatim>\<open>uint32_t\<close> pixel is a
  \<open>32 word\<close>, a pixel buffer a list of pixels, and a read or write outside a buffer, a
  failed \<^verbatim>\<open>assert\<close> and a dereferenced null pointer are values of type \<open>fault\<close>.
\<close>

subsection \<open>Integers, pixels, memory\<close>

type_synonym pixel = "32 word"

datatype fault = OutOfBounds | AssertionFailed | NullDeref | DivideByZero

text \<open>C's \<^verbatim>\<open>/\<close> and \<^verbatim>\<open>%\<close> on \<^verbatim>\<open>int\<close> truncate towards zero.\<close>

definition c_div :: "int \<Rightarrow> int \<Rightarrow> int" where
  "c_div a b = sgn a * sgn b * (\<bar>a\<bar> div \<bar>b\<bar>)"

definition c_mod :: "int \<Rightarrow> int \<Rightarrow> int" where
  "c_mod a b = a - b * c_div a b"

text \<open>What a 32-bit two's-complement register holds for the integer \<open>i\<close>.\<close>

definition s32 :: "int \<Rightarrow> int" where
  "s32 i = (i + 2147483648) mod 4294967296 - 2147483648"

text \<open>
  \<^verbatim>\<open>malloc\<close>: the heap decides whether a request of \<open>n\<close> bytes is granted (never a
  negative \<open>n\<close>, which \<^verbatim>\<open>size_t\<close> turns into a huge request), and the block it returns
  holds \<open>n div 4\<close> pixels of indeterminate content, \<open>junk\<close>.
\<close>

record heap =
  grants :: "int \<Rightarrow> bool"
  junk :: "nat \<Rightarrow> pixel"

definition malloc_pixels :: "heap \<Rightarrow> int \<Rightarrow> pixel list option" where
  "malloc_pixels h n =
     (if 0 \<le> n \<and> grants h n then Some (map (junk h) [0..<nat (n div 4)]) else None)"

definition rd :: "pixel list \<Rightarrow> int \<Rightarrow> fault + pixel" where
  "rd xs i = (if 0 \<le> i \<and> i < int (length xs) then Inr (xs ! nat i) else Inl OutOfBounds)"

definition wr :: "pixel list \<Rightarrow> int \<Rightarrow> pixel \<Rightarrow> fault + pixel list" where
  "wr xs i v =
     (if 0 \<le> i \<and> i < int (length xs) then Inr (xs[nat i := v]) else Inl OutOfBounds)"

subsection \<open>bgra_to_rgba\<close>

text \<open>
  Line 140, the word stored for the source pixel \<open>p\<close>:
  \<^verbatim>\<open>((*src & 0xff00u) << 16u) | (*src & 0xff00ffu) | ((*src & 0xff000000) >> 16u)\<close>.
\<close>

definition bgra_pixel :: "pixel \<Rightarrow> pixel" where
  "bgra_pixel p =
     push_bit 16 (p AND 0xff00) OR (p AND 0xff00ff) OR drop_bit 16 (p AND 0xff000000)"

text \<open>The inner loop over \<open>x\<close> and the outer loop over \<open>y\<close> of lines 135 to 143.\<close>

function bgra_cols :: "pixel list \<Rightarrow> int \<Rightarrow> int \<Rightarrow> int \<Rightarrow> int \<Rightarrow> pixel list \<Rightarrow> fault + pixel list"
  where
  "bgra_cols src rowstride cols y x ret =
     (if x < cols then
        (case rd src (c_div rowstride 4 * y + x) of
           Inl e \<Rightarrow> Inl e
         | Inr p \<Rightarrow>
            (case wr ret (c_div rowstride 4 * y + x) (bgra_pixel p) of
               Inl e \<Rightarrow> Inl e
             | Inr ret' \<Rightarrow> bgra_cols src rowstride cols y (x + 1) ret'))
      else Inr ret)"
  by pat_completeness auto
termination
  by (relation "measure (\<lambda>(src, rowstride, cols, y, x, ret). nat (cols - x))") auto

function bgra_rows :: "pixel list \<Rightarrow> int \<Rightarrow> int \<Rightarrow> int \<Rightarrow> int \<Rightarrow> pixel list \<Rightarrow> fault + pixel list"
  where
  "bgra_rows src rows rowstride cols y ret =
     (if y < rows then
        (case bgra_cols src rowstride cols y 0 ret of
           Inl e \<Rightarrow> Inl e
         | Inr ret' \<Rightarrow> bgra_rows src rows rowstride cols (y + 1) ret')
      else Inr ret)"
  by pat_completeness auto
termination
  by (relation "measure (\<lambda>(src, rows, rowstride, cols, y, ret). nat (rows - y))") auto

text \<open>
  \<open>bgra_to_rgba\<close>: \<open>Inr None\<close> is the null pointer (a stride that is no multiple of 4, or
  a refused allocation), \<open>Inr (Some ret)\<close> the converted buffer.
\<close>

definition bgra_to_rgba :: "heap \<Rightarrow> pixel list \<Rightarrow> int \<Rightarrow> int \<Rightarrow> int \<Rightarrow> fault + pixel list option"
  where
  "bgra_to_rgba h src rows rowstride cols =
     (if c_mod rowstride 4 \<noteq> 0 then Inr None
      else
        (case malloc_pixels h (s32 (rowstride * rows)) of
           None \<Rightarrow> Inr None
         | Some ret \<Rightarrow>
            (case bgra_rows src rows rowstride cols 0 ret of
               Inl e \<Rightarrow> Inl e
             | Inr ret' \<Rightarrow> Inr (Some ret'))))"

subsection \<open>The visual and its collaborators\<close>

text \<open>
  \<open>notcurses\<close> and \<open>ncplane\<close> are declared in \<^verbatim>\<open>internal.h\<close>, which is not part of the
  sources at hand; the records keep the fields that \<^verbatim>\<open>visual.cpp\<close> reads. The operations
  on planes that \<^verbatim>\<open>visual.cpp\<close> calls and does not define are the fields of \<open>surface\<close>:
  whatever the rendering surface answers, the visual code goes on from the answer.
  Of the handles that the build with FFmpeg adds to \<open>ncvisual\<close>, \<open>fmtctx\<close> says whether
  the format context is there and \<open>subtitle\<close> holds the rectangles of the subtitle
  decoded last; the state of the library itself is kept apart, in \<open>avstate\<close> below.
\<close>

record notcurses =
  utf8 :: bool

record ncplane =
  plane_leny :: int
  plane_lenx :: int

datatype ncscale_e = NCSCALE_NONE | NCSCALE_SCALE | NCSCALE_STRETCH

datatype nc_err_e = NCERR_SUCCESS | NCERR_NOMEM | NCERR_EOF | NCERR_DECODE | NCERR_UNIMPLEMENTED

datatype AVSubtitleType = SUBTITLE_NONE | SUBTITLE_BITMAP | SUBTITLE_TEXT | SUBTITLE_ASS

record AVSubtitleRect =
  rect_type :: AVSubtitleType
  rect_text :: string
  rect_ass :: string

record ncvisual =
  packet_outstanding :: int
  dstwidth :: int
  dstheight :: int
  stream_index :: int
  sub_stream_index :: int
  timescale :: real
  ncp :: "ncplane option"
  placex :: int
  placey :: int
  rowstride :: int
  style :: ncscale_e
  framenum :: nat
  ncobj :: "notcurses option"
  fmtctx :: bool
  subtitle :: "AVSubtitleRect list"
  data :: "pixel list option"
  owndata :: bool
  encode_scale :: int

record blit_call =
  bl_plane :: ncplane
  bl_placey :: int
  bl_placex :: int
  bl_linesize :: int
  bl_data :: "pixel list"
  bl_begy :: int
  bl_begx :: int
  bl_leny :: int
  bl_lenx :: int

datatype plane_op = Cursor_move ncplane int int | Blit_rgba blit_call

record surface =
  ncplane_new :: "int \<Rightarrow> int \<Rightarrow> int \<Rightarrow> int \<Rightarrow> ncplane option"
  ncplane_resize_simple :: "ncplane \<Rightarrow> int \<Rightarrow> int \<Rightarrow> int \<times> ncplane"
  rotate_plane :: "ncplane \<Rightarrow> ncplane option"
  ncplane_destroy :: "ncplane \<Rightarrow> int"
  ncblit_rgba :: "blit_call \<Rightarrow> int"

definition encoding_vert_scale :: "ncvisual \<Rightarrow> int" where
  "encoding_vert_scale nc = encode_scale nc"

definition set_encoding_vert_scale :: "notcurses \<Rightarrow> ncvisual \<Rightarrow> ncvisual" where
  "set_encoding_vert_scale nc ncv = ncv\<lparr>encode_scale := 1 + (if utf8 nc then 1 else 0)\<rparr>"

text \<open>\<open>ncvisual_set_data\<close> frees the buffer it replaces when the visual owned it.\<close>

definition ncvisual_set_data :: "ncvisual \<Rightarrow> pixel list option \<Rightarrow> bool \<Rightarrow> ncvisual" where
  "ncvisual_set_data ncv d owned = ncv\<lparr>data := d, owndata := owned\<rparr>"

text \<open>\<open>ncvisual_create\<close>: \<^verbatim>\<open>new ncvisual{}\<close>, every field zero, then the timescale.\<close>

definition ncvisual_create :: "real \<Rightarrow> ncvisual" where
  "ncvisual_create ts =
     \<lparr>packet_outstanding = 0, dstwidth = 0, dstheight = 0, stream_index = 0,
      sub_stream_index = 0, timescale = ts, ncp = None, placex = 0, placey = 0,
      rowstride = 0, style = NCSCALE_NONE, framenum = 0, ncobj = None, fmtctx = False,
      subtitle = [], data = None, owndata = False, encode_scale = 0\<rparr>"

text \<open>
  Modelled from the spec: \<^verbatim>\<open>memdup\<close> of \<^verbatim>\<open>internal.h\<close> is not part of the sources at hand;
  a raw buffer is ``copied into an owned buffer'': \<open>n\<close> bytes are allocated and the first
  \<open>n\<close> bytes of the source copied; reading them beyond the source is out of bounds.
\<close>

definition memdup :: "heap \<Rightarrow> pixel list \<Rightarrow> int \<Rightarrow> fault + pixel list option" where
  "memdup h src n =
     (case malloc_pixels h n of
        None \<Rightarrow> Inr None
      | Some ret \<Rightarrow>
          if n \<le> 4 * int (length src) then Inr (Some (take (nat (n div 4)) src))
          else Inl OutOfBounds)"

subsection \<open>ncvisual_from_rgba\<close>

definition ncvisual_from_rgba ::
  "surface \<Rightarrow> heap \<Rightarrow> notcurses \<Rightarrow> pixel list \<Rightarrow> int \<Rightarrow> int \<Rightarrow> int \<Rightarrow> fault + ncvisual option"
  where
  "ncvisual_from_rgba sf h nc rgba rows stride cols =
     (if c_mod stride 4 \<noteq> 0 then Inr None
      else
        let ncv = set_encoding_vert_scale nc (ncvisual_create 1);
            ncv = ncv\<lparr>rowstride := stride, ncobj := Some nc, dstwidth := cols, dstheight := rows\<rparr>;
            disprows = (if utf8 nc then c_div (dstheight ncv) 2 + c_mod (dstheight ncv) 2
                        else dstheight ncv)
        in
          (case ncplane_new sf disprows (dstwidth ncv) 0 0 of
             None \<Rightarrow> Inr None
           | Some n \<Rightarrow>
              (case memdup h rgba (s32 (stride * dstheight ncv)) of
                 Inl e \<Rightarrow> Inl e
               | Inr None \<Rightarrow> Inr None
               | Inr (Some d) \<Rightarrow> Inr (Some (ncvisual_set_data (ncv\<lparr>ncp := Some n\<rparr>) (Some d) True)))))"

subsection \<open>ncvisual_render\<close>

text \<open>
  The result is the returned \<^verbatim>\<open>int\<close> and the operations issued on the plane, in order.
  \<^verbatim>\<open>dstwidth - begx\<close> cannot leave the \<^verbatim>\<open>int\<close> range behind the guards before it;
  \<^verbatim>\<open>begx + lenx\<close> and \<^verbatim>\<open>begy + leny\<close> can, and are the wrapped sums.
\<close>

definition ncvisual_render ::
  "surface \<Rightarrow> ncvisual \<Rightarrow> int \<Rightarrow> int \<Rightarrow> int \<Rightarrow> int \<Rightarrow> fault + int \<times> plane_op list"
  where
  "ncvisual_render sf ncv begy begx leny lenx =
     (if begy < 0 \<or> begx < 0 \<or> lenx < - 1 \<or> leny < - 1 then Inr (- 1, [])
      else
        (case data ncv of
           None \<Rightarrow> Inr (- 1, [])
         | Some d \<Rightarrow>
            if begx \<ge> dstwidth ncv \<or> begy \<ge> dstheight ncv then Inr (- 1, [])
            else
              let lenx = (if lenx = - 1 then dstwidth ncv - begx else lenx);
                  leny = (if leny = - 1 then dstheight ncv - begy else leny)
              in
                if lenx < 0 \<or> leny < 0 then Inr (0, [])
                else if s32 (begx + lenx) > dstwidth ncv \<or> s32 (begy + leny) > dstheight ncv
                then Inr (- 1, [])
                else
                  (case ncp ncv of
                     None \<Rightarrow> Inl NullDeref
                   | Some n \<Rightarrow>
                      let call = \<lparr>bl_plane = n, bl_placey = placey ncv, bl_placex = placex ncv,
                                  bl_linesize = rowstride ncv, bl_data = d, bl_begy = begy,
                                  bl_begx = begx, bl_leny = leny, bl_lenx = lenx\<rparr>
                      in Inr (ncblit_rgba sf call, [Cursor_move n 0 0, Blit_rgba call]))))"

subsection \<open>ncvisual_rotate\<close>

text \<open>
  The sine and the cosine are \<^verbatim>\<open>double\<close>s in the code and real numbers here; the
  conversion of a \<^verbatim>\<open>double\<close> to \<^verbatim>\<open>int\<close> truncates towards zero. The model is exact
  where the code rounds: the sine of the \<^verbatim>\<open>double\<close> nearest to \<open>pi\<close> is about
  \<open>1.22e-16\<close> in the code and 0 here, and a target that is a whole number here can be
  truncated to the number below it in the code. Nothing is proved from the model at
  such a target: the destination used below has the row offset 0 and the cosine \<open>-1\<close>,
  which the code computes exactly, and is the same for every sine.
\<close>

definition c_trunc :: "real \<Rightarrow> int" where
  "c_trunc r = (if 0 \<le> r then \<lfloor>r\<rfloor> else \<lceil>r\<rceil>)"

text \<open>
  \<open>rotate_new_geom\<close> returns the diameter (or \<open>-1\<close>), the sine, the cosine, and the
  visual, whose plane the surface may have resized.
\<close>

definition rotate_new_geom :: "surface \<Rightarrow> ncvisual \<Rightarrow> real \<Rightarrow> fault + int \<times> real \<times> real \<times> ncvisual"
  where
  "rotate_new_geom sf ncv rads =
     (case ncp ncv of
        None \<Rightarrow> Inl NullDeref
      | Some n \<Rightarrow>
          let stheta = sin rads;
              ctheta = cos rads;
              scaledy = plane_leny n * encoding_vert_scale ncv;
              diam = (if scaledy < plane_lenx n then plane_lenx n else scaledy)
          in
            if plane_lenx n \<noteq> scaledy then
              (if encoding_vert_scale ncv = 0 then Inl DivideByZero
               else
                 (case ncplane_resize_simple sf n (c_div diam (encoding_vert_scale ncv)) diam of
                    (r, n') \<Rightarrow>
                      if r < 0 then Inr (- 1, stheta, ctheta, ncv\<lparr>ncp := Some n'\<rparr>)
                      else Inr (diam, stheta, ctheta, ncv\<lparr>ncp := Some n'\<rparr>)))
            else Inr (diam, stheta, ctheta, ncv))"

text \<open>Lines 207 to 212: the destination \<open>(deconvy, deconvx)\<close> of the pixel \<open>(y, x)\<close>.\<close>

definition rotate_target :: "real \<Rightarrow> real \<Rightarrow> int \<Rightarrow> int \<Rightarrow> int \<Rightarrow> int \<Rightarrow> int \<Rightarrow> int \<times> int" where
  "rotate_target stheta ctheta pdiam centy centx y x =
     (let convy = y - centy;
          convx = x - centx;
          targy = c_trunc (real_of_int convx * stheta + real_of_int convy * ctheta);
          targx = c_trunc (real_of_int convx * ctheta + real_of_int convy * stheta);
          deconvy = targy + c_div pdiam 2;
          deconvx = targx + c_div pdiam 2
      in (deconvy, deconvx))"

text \<open>The loops of lines 205 to 223, with their four assertions.\<close>

function rotate_cols ::
  "real \<Rightarrow> real \<Rightarrow> ncvisual \<Rightarrow> pixel list \<Rightarrow> int \<Rightarrow> int \<Rightarrow> int \<Rightarrow> int \<Rightarrow> int \<Rightarrow> pixel list
   \<Rightarrow> fault + pixel list"
  where
  "rotate_cols stheta ctheta ncv src pdiam centy centx y x dat =
     (if x < dstwidth ncv then
        (case rotate_target stheta ctheta pdiam centy centx y x of
           (deconvy, deconvx) \<Rightarrow>
             if \<not> (deconvy \<ge> 0 \<and> deconvx \<ge> 0 \<and> deconvy < pdiam \<and> deconvx < pdiam)
             then Inl AssertionFailed
             else
               (case rd src (y * c_div (rowstride ncv) 4 + x) of
                  Inl e \<Rightarrow> Inl e
                | Inr p \<Rightarrow>
                   (case wr dat (deconvy * pdiam + deconvx) p of
                      Inl e \<Rightarrow> Inl e
                    | Inr dat' \<Rightarrow>
                        rotate_cols stheta ctheta ncv src pdiam centy centx y (x + 1) dat')))
      else Inr dat)"
  by pat_completeness auto
termination
  by (relation "measure (\<lambda>(stheta, ctheta, ncv, src, pdiam, centy, centx, y, x, dat).
        nat (dstwidth ncv - x))") auto

function rotate_rows ::
  "real \<Rightarrow> real \<Rightarrow> ncvisual \<Rightarrow> pixel list \<Rightarrow> int \<Rightarrow> int \<Rightarrow> int \<Rightarrow> int \<Rightarrow> pixel list
   \<Rightarrow> fault + pixel list"
  where
  "rotate_rows stheta ctheta ncv src pdiam centy centx y dat =
     (if y < dstheight ncv then
        (case rotate_cols stheta ctheta ncv src pdiam centy centx y 0 dat of
           Inl e \<Rightarrow> Inl e
         | Inr dat' \<Rightarrow> rotate_rows stheta ctheta ncv src pdiam centy centx (y + 1) dat')
      else Inr dat)"
  by pat_completeness auto
termination
  by (relation "measure (\<lambda>(stheta, ctheta, ncv, src, pdiam, centy, centx, y, dat).
        nat (dstheight ncv - y))") auto

definition ncvisual_rotate :: "surface \<Rightarrow> heap \<Rightarrow> ncvisual \<Rightarrow> real \<Rightarrow> fault + int \<times> ncvisual" where
  "ncvisual_rotate sf h ncv rads =
     (case data ncv of
        None \<Rightarrow> Inr (- 1, ncv)
      | Some src \<Rightarrow>
         (case rotate_new_geom sf ncv rads of
            Inl e \<Rightarrow> Inl e
          | Inr (diam, stheta, ctheta, ncv) \<Rightarrow>
              if diam \<le> 0 then Inr (- 1, ncv)
              else
                (case ncp ncv of
                   None \<Rightarrow> Inl NullDeref
                 | Some n \<Rightarrow>
                    (case rotate_plane sf n of
                       None \<Rightarrow> Inr (- 1, ncv)
                     | Some newp \<Rightarrow>
                        let pdiam = (if dstheight ncv > dstwidth ncv then dstheight ncv
                                     else dstwidth ncv)
                        in
                          if \<not> (c_div (rowstride ncv) 4 \<ge> dstwidth ncv) then Inl AssertionFailed
                          else
                            (case malloc_pixels h (s32 (s32 (pdiam * pdiam) * 4)) of
                               None \<Rightarrow> Inr (- 1, ncv)
                             | Some dat \<Rightarrow>
                                (case rotate_rows stheta ctheta ncv src pdiam
                                        (c_div (dstheight ncv) 2) (c_div (dstwidth ncv) 2) 0 dat of
                                   Inl e \<Rightarrow> Inl e
                                 | Inr dat' \<Rightarrow>
                                     let ret = ncplane_destroy sf n;
                                         ncv = ncvisual_set_data ncv (Some dat') True
                                     in Inr (ret, ncv\<lparr>dstwidth := pdiam, dstheight := pdiam,
                                                      rowstride := pdiam * 4,
                                                      ncp := Some newp\<rparr>)))))))"

subsection \<open>Subtitles\<close>

text \<open>
  A C string is the list of its characters before the terminating NUL. \<open>strchr\<close> gives
  the offset of the first occurrence of a character, a pointer into the string being
  an offset from its start.
\<close>

fun strchr :: "string \<Rightarrow> char \<Rightarrow> nat option" where
  "strchr [] c = None"
| "strchr (x # xs) c = (if x = c then Some 0 else map_option Suc (strchr xs c))"

text \<open>
  The loop of lines 422 to 425, \<^verbatim>\<open>while(delim && commas < 8)\<close>: \<open>delim\<close> is the offset of
  a comma of \<open>ass\<close>, or null.
\<close>

function deass_commas :: "string \<Rightarrow> nat option \<Rightarrow> int \<Rightarrow> nat option" where
  "deass_commas ass delim commas =
     (case delim of
        None \<Rightarrow> None
      | Some d \<Rightarrow>
          if commas < 8 then
            deass_commas ass
              (map_option (\<lambda>k. d + 1 + k) (strchr (drop (d + 1) ass) (CHR '','')))
              (commas + 1)
          else Some d)"
  by pat_completeness auto
termination
  by (relation "measure (\<lambda>(ass, delim, commas). nat (8 - commas))") auto

text \<open>
  The loop of lines 432 to 441 over the copy \<open>dup\<close> (\<^verbatim>\<open>strdup\<close> is taken to succeed),
  with \<open>c\<close> the offset of the pointer. At offset \<open>length dup\<close> stands the terminating
  NUL; one past it the copy ends. A backslash is blanked and the pointer advanced; the
  character there is blanked unless it is the NUL; the pointer is advanced again.
\<close>

function deass_blank :: "string \<Rightarrow> nat \<Rightarrow> fault + string" where
  "deass_blank dup c =
     (if length dup < c then Inl OutOfBounds
      else if c = length dup then Inr dup
      else if dup ! c = CHR 0x5C then
        (if c + 1 < length dup then deass_blank (dup[c := CHR '' '', c + 1 := CHR '' '']) (c + 2)
         else deass_blank (dup[c := CHR '' '']) (c + 2))
      else deass_blank dup (c + 1))"
  by pat_completeness auto
termination
  by (relation "measure (\<lambda>(dup, c). Suc (length dup) - c)") auto

definition deass :: "string \<Rightarrow> fault + string option" where
  "deass ass =
     (if take 9 ass \<noteq> ''Dialogue:'' then Inr None
      else
        (case deass_commas ass (strchr ass (CHR '','')) 0 of
           None \<Rightarrow> Inr None
         | Some d \<Rightarrow>
            (case deass_blank (drop (d + 1) ass) 0 of
               Inl e \<Rightarrow> Inl e
             | Inr dup \<Rightarrow> Inr (Some dup))))"

text \<open>\<open>ncvisual_subtitle\<close> of the build with FFmpeg: the loop over the rectangles.\<close>

fun subtitle_rects :: "AVSubtitleRect list \<Rightarrow> fault + string option" where
  "subtitle_rects [] = Inr None"
| "subtitle_rects (rect # rects) =
     (if rect_type rect = SUBTITLE_ASS then deass (rect_ass rect)
      else if rect_type rect = SUBTITLE_TEXT then Inr (Some (rect_text rect))
      else subtitle_rects rects)"

definition ncvisual_subtitle :: "ncvisual \<Rightarrow> fault + string option" where
  "ncvisual_subtitle ncv = subtitle_rects (subtitle ncv)"

text \<open>
  The words of the specification, to compare the code with: \<open>strip_fields n\<close> strips
  \<open>n\<close> leading fields, each with the comma that ends it; \<open>blank_escapes\<close> replaces a
  backslash and the character that follows it by two blanks; \<open>lone_backslash\<close> holds
  of a text whose last character is a backslash that no backslash before it escapes.
\<close>

fun strip_fields :: "nat \<Rightarrow> string \<Rightarrow> string option" where
  "strip_fields 0 s = Some s"
| "strip_fields (Suc n) s =
     (case strchr s (CHR '','') of
        None \<Rightarrow> None
      | Some k \<Rightarrow> strip_fields n (drop (Suc k) s))"

fun blank_escapes :: "string \<Rightarrow> string" where
  "blank_escapes [] = []"
| "blank_escapes [x] = [x]"
| "blank_escapes (x # y # zs) =
     (if x = CHR 0x5C then CHR '' '' # CHR '' '' # blank_escapes zs
      else x # blank_escapes (y # zs))"

fun lone_backslash :: "string \<Rightarrow> bool" where
  "lone_backslash [] = False"
| "lone_backslash [x] = (x = CHR 0x5C)"
| "lone_backslash (x # y # zs) =
     (if x = CHR 0x5C then lone_backslash zs else lone_backslash (y # zs))"

subsection \<open>ncvisual_decode, built with FFmpeg\<close>

text \<open>
  The library is not part of the sources: \<open>libav\<close> holds its answers, the \<open>k\<close>-th
  call of \<^verbatim>\<open>av_read_frame\<close> giving what it returns and the stream index of the packet
  it read, the \<open>k\<close>-th call of \<^verbatim>\<open>avcodec_send_packet\<close> and of \<^verbatim>\<open>avcodec_receive_frame\<close>
  what they return. \<open>scale_frame\<close> stands for lines 517 to 591, which size the plane
  and convert the decoded frame; they touch neither the packet nor its counter.
  \<open>avstate\<close> counts the calls, knows whether the packet of the visual holds a
  compressed unit, and keeps the trace of the calls: a read with whether a unit was
  still held, a send with what \<open>packet_outstanding\<close> is at that moment.
\<close>

definition AVERROR_EOF :: int where
  "AVERROR_EOF = - 541478725"

definition AVERROR_EAGAIN :: int where
  "AVERROR_EAGAIN = - 11"

record libav =
  av_read_frame :: "nat \<Rightarrow> int \<times> int"
  avcodec_send_packet :: "nat \<Rightarrow> int"
  avcodec_receive_frame :: "nat \<Rightarrow> int"
  scale_frame :: "ncvisual \<Rightarrow> nc_err_e \<times> ncvisual"

datatype av_call = Av_read bool | Av_unref | Av_subtitle | Av_send int | Av_receive

record avstate =
  n_reads :: nat
  n_sends :: nat
  n_receives :: nat
  unit_held :: bool
  packet_stream_index :: int
  calls :: "av_call list"

definition averr2ncerr :: "int \<Rightarrow> nc_err_e" where
  "averr2ncerr averr = (if averr = AVERROR_EOF then NCERR_EOF else NCERR_DECODE)"

definition av_packet_unref :: "avstate \<Rightarrow> avstate" where
  "av_packet_unref s = s\<lparr>unit_held := False, calls := calls s @ [Av_unref]\<rparr>"

text \<open>
  The inner loop, lines 476 to 498. It either returns from \<open>ncvisual_decode\<close> with an
  error (\<open>Inl\<close>) or is left, by \<^verbatim>\<open>break\<close> or by its condition, with the local \<open>unref\<close>
  (\<open>Inr\<close>). The fuel bounds the iterations: \<open>None\<close> when it runs out.
\<close>

fun read_packets ::
  "nat \<Rightarrow> libav \<Rightarrow> bool \<Rightarrow> avstate \<times> ncvisual \<Rightarrow> ((nc_err_e + bool) \<times> avstate \<times> ncvisual) option"
  where
  "read_packets 0 av unref (s, nc) = None"
| "read_packets (Suc k) av unref (s, nc) =
     (if packet_outstanding nc \<noteq> 0 then Some (Inr unref, s, nc)
      else
        let s = (if unref then av_packet_unref s else s);
            (averr, idx) = av_read_frame av (n_reads s);
            s = s\<lparr>n_reads := Suc (n_reads s), calls := calls s @ [Av_read (unit_held s)]\<rparr>
        in
          if averr < 0 then Some (Inl (averr2ncerr averr), s\<lparr>unit_held := False\<rparr>, nc)
          else
            let s = s\<lparr>unit_held := True, packet_stream_index := idx\<rparr>;
                s = (if packet_stream_index s = sub_stream_index nc
                     then s\<lparr>calls := calls s @ [Av_subtitle]\<rparr> else s)
            in
              if packet_stream_index s \<noteq> stream_index nc then read_packets k av True (s, nc)
              else Some (Inr True, s, nc))"

text \<open>
  \<open>decode_loop\<close> is the outer loop, lines 475 to 515, and \<open>ncvisual_decode\<close> the
  function, which the loop calls again when the packet could not be sent. The fuel
  bounds the depth of the calls: \<open>None\<close> when it runs out.
\<close>

fun ncvisual_decode :: "nat \<Rightarrow> libav \<Rightarrow> avstate \<times> ncvisual \<Rightarrow> (nc_err_e \<times> avstate \<times> ncvisual) option"
  and decode_loop ::
    "nat \<Rightarrow> libav \<Rightarrow> bool \<Rightarrow> avstate \<times> ncvisual \<Rightarrow> (nc_err_e \<times> avstate \<times> ncvisual) option"
  where
  "ncvisual_decode 0 av (s, nc) = None"
| "ncvisual_decode (Suc k) av (s, nc) =
     (if \<not> fmtctx nc then Some (NCERR_DECODE, s, nc)
      else decode_loop k av False (s, nc))"
| "decode_loop 0 av unref (s, nc) = None"
| "decode_loop (Suc k) av unref (s, nc) =
     (case read_packets k av unref (s, nc) of
        None \<Rightarrow> None
      | Some (Inl err, s, nc) \<Rightarrow> Some (err, s, nc)
      | Some (Inr unref, s, nc) \<Rightarrow>
          let nc = nc\<lparr>packet_outstanding := packet_outstanding nc + 1\<rparr>;
              sent = avcodec_send_packet av (n_sends s);
              s = s\<lparr>n_sends := Suc (n_sends s),
                    calls := calls s @ [Av_send (packet_outstanding nc)]\<rparr>
          in
            if sent < 0 then ncvisual_decode k av (s, nc)
            else
              let nc = nc\<lparr>packet_outstanding := packet_outstanding nc - 1\<rparr>;
                  s = av_packet_unref s;
                  averr = avcodec_receive_frame av (n_receives s);
                  s = s\<lparr>n_receives := Suc (n_receives s), calls := calls s @ [Av_receive]\<rparr>
              in
                if averr \<ge> 0 then
                  (case scale_frame av nc of (err, nc) \<Rightarrow> Some (err, s, nc))
                else if averr = AVERROR_EAGAIN \<or> averr = AVERROR_EOF
                then decode_loop k av unref (s, nc)
                else Some (averr2ncerr averr, s, nc))"

subsection \<open>ncvisual_stream, built with FFmpeg\<close>

text \<open>
  \<open>ncvisual_stream\<close> works on a world \<open>'w\<close>: the visual and all that its callees
  read and change (the library, the plane, the clock, the callback's \<open>curry\<close>). A
  \<open>player\<close> holds the callees: \<open>start\<close> for lines 729 to 738 (the timescale is stored,
  the clock read), \<open>decode\<close> for \<open>ncvisual_decode(ncv)\<close>, \<open>render\<close> for
  \<open>ncvisual_render(ncv, 0, 0, -1, -1)\<close>, \<open>streamer\<close> for the callback, which may be
  null, and \<open>pace\<close> for the pacing of lines 742 to 746 and 756 to 776 (the time
  stamps are compared with the clock, the thread sleeps), which decides nothing about
  the loop. A callee that does not return gives \<open>None\<close>. The events are kept in order.
\<close>

record 'w player =
  start :: "'w \<Rightarrow> 'w"
  decode :: "'w \<Rightarrow> (nc_err_e \<times> 'w) option"
  render :: "'w \<Rightarrow> (int \<times> 'w) option"
  streamer :: "('w \<Rightarrow> (int \<times> 'w) option) option"
  pace :: "'w \<Rightarrow> 'w"

datatype stream_event = Decoded nc_err_e | Rendered int | Called int

datatype stream_end = Returned int | No_return | Out_of_fuel

text \<open>
  The \<^verbatim>\<open>while\<close> loop of lines 739 to 777 and what follows it. The fuel bounds the
  iterations; the result says how the run ended, the content of \<^verbatim>\<open>*ncerr\<close>, the events
  so far and the world.
\<close>

fun stream_loop ::
  "nat \<Rightarrow> 'w player \<Rightarrow> nc_err_e \<Rightarrow> stream_event list \<Rightarrow> 'w
   \<Rightarrow> stream_end \<times> nc_err_e \<times> stream_event list \<times> 'w"
  where
  "stream_loop 0 pl ncerr evs w = (Out_of_fuel, ncerr, evs, w)"
| "stream_loop (Suc k) pl ncerr evs w =
     (case decode pl w of
        None \<Rightarrow> (No_return, ncerr, evs, w)
      | Some (err, w) \<Rightarrow>
          if err = NCERR_SUCCESS then
            (case render pl w of
               None \<Rightarrow> (No_return, err, evs @ [Decoded err], w)
             | Some (r, w) \<Rightarrow>
                 if r < 0 then (Returned (- 1), err, evs @ [Decoded err, Rendered r], w)
                 else
                   (case streamer pl of
                      None \<Rightarrow> stream_loop k pl err (evs @ [Decoded err, Rendered r]) (pace pl w)
                    | Some cb \<Rightarrow>
                       (case cb w of
                          None \<Rightarrow> (No_return, err, evs @ [Decoded err, Rendered r], w)
                        | Some (c, w) \<Rightarrow>
                            if c \<noteq> 0
                            then (Returned c, err, evs @ [Decoded err, Rendered r, Called c], w)
                            else stream_loop k pl err
                                   (evs @ [Decoded err, Rendered r, Called c]) (pace pl w))))
          else (Returned (if err = NCERR_EOF then 0 else - 1), err, evs @ [Decoded err], w))"

definition ncvisual_stream ::
  "nat \<Rightarrow> 'w player \<Rightarrow> 'w \<Rightarrow> stream_end \<times> nc_err_e \<times> stream_event list \<times> 'w" where
  "ncvisual_stream fuel pl w = stream_loop fuel pl NCERR_SUCCESS [] (start pl w)"

text \<open>The values the callback returned, in order.\<close>

fun callback_results :: "stream_event list \<Rightarrow> int list" where
  "callback_results [] = []"
| "callback_results (Called c # evs) = c # callback_results evs"
| "callback_results (e # evs) = callback_results evs"

text \<open>
  The player of a visual built with FFmpeg on a surface and a library: the world is
  the state of the library, the visual, the operations issued on the plane, and the
  callback's \<open>curry\<close>. A fault in \<open>ncvisual_render\<close> ends the run without a return.
\<close>

definition ffmpeg_player ::
  "nat \<Rightarrow> libav \<Rightarrow> surface \<Rightarrow> real \<Rightarrow>
   (ncvisual \<Rightarrow> 'c \<Rightarrow> (int \<times> ncvisual \<times> 'c) option) option \<Rightarrow>
   (avstate \<times> ncvisual \<times> plane_op list \<times> 'c) player" where
  "ffmpeg_player fuel av sf ts cb =
     \<lparr>start = (\<lambda>(s, ncv, ops, cur). (s, ncv\<lparr>timescale := ts\<rparr>, ops, cur)),
      decode = (\<lambda>(s, ncv, ops, cur).
        case ncvisual_decode fuel av (s, ncv) of
          None \<Rightarrow> None
        | Some (err, s, ncv) \<Rightarrow> Some (err, s, ncv, ops, cur)),
      render = (\<lambda>(s, ncv, ops, cur).
        case ncvisual_render sf ncv 0 0 (- 1) (- 1) of
          Inl e \<Rightarrow> None
        | Inr (r, ops') \<Rightarrow> Some (r, s, ncv, ops @ ops', cur)),
      streamer = (case cb of
          None \<Rightarrow> None
        | Some f \<Rightarrow> Some (\<lambda>(s, ncv, ops, cur).
            case f ncv cur of
              None \<Rightarrow> None
            | Some (r, ncv, cur) \<Rightarrow> Some (r, s, ncv, ops, cur))),
      pace = (\<lambda>w. w)\<rparr>"

subsection \<open>The build without FFmpeg and without OpenImageIO\<close>

text \<open>
  The three builds of lines 350 to 1080. A function with the out-parameter \<^verbatim>\<open>ncerr\<close>
  takes what \<^verbatim>\<open>*ncerr\<close> holds before the call and returns what it holds after it.
\<close>

datatype build = USE_FFMPEG | USE_OIIO | NO_BACKEND

fun notcurses_canopen_images :: "build \<Rightarrow> notcurses \<Rightarrow> bool" where
  "notcurses_canopen_images USE_FFMPEG nc = True"
| "notcurses_canopen_images NO_BACKEND nc = False"
| "notcurses_canopen_images USE_OIIO nc = True"

fun notcurses_canopen_videos :: "build \<Rightarrow> notcurses \<Rightarrow> bool" where
  "notcurses_canopen_videos USE_FFMPEG nc = True"
| "notcurses_canopen_videos NO_BACKEND nc = False"
| "notcurses_canopen_videos USE_OIIO nc = False"

definition nobackend_ncvisual_decode :: "ncvisual \<Rightarrow> nc_err_e \<times> ncvisual" where
  "nobackend_ncvisual_decode nc = (NCERR_UNIMPLEMENTED, nc)"

definition nobackend_ncvisual_stream ::
  "notcurses \<Rightarrow> ncvisual \<Rightarrow> nc_err_e \<Rightarrow> real \<Rightarrow> 'cb \<Rightarrow> 'c \<Rightarrow> int \<times> nc_err_e \<times> ncvisual" where
  "nobackend_ncvisual_stream nc ncv ncerr ts cb cur = (- 1, ncerr, ncv)"

definition nobackend_ncplane_visual_open ::
  "ncplane \<Rightarrow> string \<Rightarrow> nc_err_e \<Rightarrow> ncvisual option \<times> nc_err_e" where
  "nobackend_ncplane_visual_open n filename ncerr = (None, ncerr)"

definition nobackend_ncvisual_from_file ::
  "notcurses \<Rightarrow> string \<Rightarrow> nc_err_e \<Rightarrow> int \<Rightarrow> int \<Rightarrow> ncscale_e \<Rightarrow> ncvisual option \<times> nc_err_e" where
  "nobackend_ncvisual_from_file nc filename ncerr y x scale = (None, ncerr)"

definition nobackend_ncvisual_subtitle :: "ncvisual \<Rightarrow> string option" where
  "nobackend_ncvisual_subtitle ncv = None"

subsection \<open>Runs of the stream loop\<close>

text \<open>
  \<open>quiet\<close>: every callback result among the events is 0. \<open>stopped\<close>: the last event
  is a callback result other than 0, the run returned it, and the events before were
  quiet.
\<close>

definition quiet :: "stream_event list \<Rightarrow> bool" where
  "quiet evs \<longleftrightarrow> (\<forall>c \<in> set (callback_results evs). c = 0)"

definition stopped :: "stream_end \<Rightarrow> stream_event list \<Rightarrow> bool" where
  "stopped how evs \<longleftrightarrow>
     (\<exists>c pre. c \<noteq> 0 \<and> evs = pre @ [Called c] \<and> quiet pre \<and> how = Returned c)"

subsection \<open>Postconditions of the conversion loops\<close>

text \<open>
  What the inner loop has done when it returns from column \<open>x\<close> of the row that starts
  at pixel \<open>b\<close>, and what the outer loop has done when it returns from row \<open>y\<close>: the
  pixels of the window are converted, every other pixel of the block is as it was.
\<close>

definition cols_post :: "pixel list \<Rightarrow> int \<Rightarrow> int \<Rightarrow> int \<Rightarrow> pixel list \<Rightarrow> pixel list \<Rightarrow> bool" where
  "cols_post src b cols x ret out \<longleftrightarrow>
     length out = length ret \<and>
     (\<forall>x'. x \<le> x' \<and> x' < cols \<longrightarrow>
        0 \<le> b + x' \<and> b + x' < int (length src) \<and> b + x' < int (length ret) \<and>
        out ! nat (b + x') = bgra_pixel (src ! nat (b + x'))) \<and>
     (\<forall>i < length ret. (\<forall>x'. x \<le> x' \<and> x' < cols \<longrightarrow> int i \<noteq> b + x') \<longrightarrow> out ! i = ret ! i)"

definition rows_post :: "pixel list \<Rightarrow> int \<Rightarrow> int \<Rightarrow> int \<Rightarrow> int \<Rightarrow> pixel list \<Rightarrow> pixel list \<Rightarrow> bool"
  where
  "rows_post src w rows cols y ret out \<longleftrightarrow>
     length out = length ret \<and>
     (\<forall>y' x'. y \<le> y' \<and> y' < rows \<and> 0 \<le> x' \<and> x' < cols \<longrightarrow>
        0 \<le> w * y' + x' \<and> w * y' + x' < int (length src) \<and> w * y' + x' < int (length ret) \<and>
        out ! nat (w * y' + x') = bgra_pixel (src ! nat (w * y' + x'))) \<and>
     (\<forall>i < length ret.
        (\<forall>y' x'. y \<le> y' \<and> y' < rows \<and> 0 \<le> x' \<and> x' < cols \<longrightarrow> int i \<noteq> w * y' + x') \<longrightarrow>
        out ! i = ret ! i)"

subsection \<open>Concrete inputs\<close>

text \<open>A heap that grants every request and hands out zeroed blocks.\<close>

definition heap0 :: heap where
  "heap0 = \<lparr>grants = (\<lambda>n. True), junk = (\<lambda>k. 0)\<rparr>"

text \<open>
  A surface that creates and resizes every plane asked for, rotates a plane by
  exchanging its sides, and whose blit reports success.
\<close>

definition surface0 :: surface where
  "surface0 =
     \<lparr>ncplane_new = (\<lambda>rows cols y x. Some \<lparr>plane_leny = rows, plane_lenx = cols\<rparr>),
      ncplane_resize_simple = (\<lambda>n rows cols. (0, \<lparr>plane_leny = rows, plane_lenx = cols\<rparr>)),
      rotate_plane = (\<lambda>n. Some \<lparr>plane_leny = plane_lenx n, plane_lenx = plane_leny n\<rparr>),
      ncplane_destroy = (\<lambda>n. 0),
      ncblit_rgba = (\<lambda>c. 0)\<rparr>"

text \<open>
  The visual that \<open>ncvisual_from_rgba\<close> builds on that surface, without half blocks,
  from the 2 by 2 image with the pixels 1, 2, 3, 4 and a stride of 8 bytes.
\<close>

definition visual_2x2 :: ncvisual where
  "visual_2x2 =
     \<lparr>packet_outstanding = 0, dstwidth = 2, dstheight = 2, stream_index = 0,
      sub_stream_index = 0, timescale = 1, ncp = Some \<lparr>plane_leny = 2, plane_lenx = 2\<rparr>,
      placex = 0, placey = 0, rowstride = 8, style = NCSCALE_NONE, framenum = 0,
      ncobj = Some \<lparr>utf8 = False\<rparr>, fmtctx = False, subtitle = [],
      data = Some [1, 2, 3, 4], owndata = True, encode_scale = 1\<rparr>"

text \<open>
  The visual that \<open>ncvisual_from_rgba\<close> builds on that surface, without half blocks,
  from the image of one row with the pixels 1, 2 and a stride of 8 bytes.
\<close>

definition visual_1x2 :: ncvisual where
  "visual_1x2 =
     \<lparr>packet_outstanding = 0, dstwidth = 2, dstheight = 1, stream_index = 0,
      sub_stream_index = 0, timescale = 1, ncp = Some \<lparr>plane_leny = 1, plane_lenx = 2\<rparr>,
      placex = 0, placey = 0, rowstride = 8, style = NCSCALE_NONE, framenum = 0,
      ncobj = Some \<lparr>utf8 = False\<rparr>, fmtctx = False, subtitle = [],
      data = Some [1, 2], owndata = True, encode_scale = 1\<rparr>"

text \<open>
  A visual with the given subtitle rectangles; the dialogue line of the comment of
  \<^verbatim>\<open>deass\<close> (line 415); and a dialogue line whose text holds the escape \<^verbatim>\<open>\i\<close>.
\<close>

definition subtitled :: "AVSubtitleRect list \<Rightarrow> ncvisual" where
  "subtitled rs = (ncvisual_create 1)\<lparr>subtitle := rs\<rparr>"

definition wolf_line :: string where
  "wolf_line =
     ''Dialogue: Marked=0,0:02:40.65,0:02:41.79,Wolf main,Cher,0000,0000,0000,,Et les enregistrements de ses ondes delta ?''"

definition styled_line :: string where
  "styled_line =
     ''Dialogue: 0,0:00:01.00,0:00:02.00,Default,,0,0,0,,{'' @ [CHR 0x5C] @ ''i1}Bonjour''"

text \<open>
  A stream as \<open>ncvisual_from_file\<close> hands it out, without half blocks:
  \<open>ncvisual_open\<close> clears the visual it created (line 603), so that the timescale is 0,
  finds the video in stream 0 and no subtitles, and \<open>ncvisual_from_file\<close> sets the
  vertical scale and the owner and leaves the plane null. Then the library before its
  first call, and a library that refuses the first packet sent to the codec and accepts
  every later one.
\<close>

definition av_refuses_once :: libav where
  "av_refuses_once =
     \<lparr>av_read_frame = (\<lambda>k. (0, 0)),
      avcodec_send_packet = (\<lambda>k. if k = 0 then - 1 else 0),
      avcodec_receive_frame = (\<lambda>k. 0),
      scale_frame = (\<lambda>nc. (NCERR_SUCCESS, nc))\<rparr>"

definition avstate0 :: avstate where
  "avstate0 = \<lparr>n_reads = 0, n_sends = 0, n_receives = 0, unit_held = False,
      packet_stream_index = 0, calls = []\<rparr>"

definition opened :: ncvisual where
  "opened =
     (set_encoding_vert_scale \<lparr>utf8 = False\<rparr>
        ((ncvisual_create 1)\<lparr>timescale := 0, fmtctx := True, sub_stream_index := - 1\<rparr>))
     \<lparr>ncobj := Some \<lparr>utf8 = False\<rparr>\<rparr>"

text \<open>
  A library that plays for ever, a callback that returns 7 on its third call and 0
  before, and the run of \<open>ncvisual_stream\<close> with them on the 2 by 2 visual.
\<close>

definition av_plays :: libav where
  "av_plays =
     \<lparr>av_read_frame = (\<lambda>k. (0, 0)),
      avcodec_send_packet = (\<lambda>k. 0),
      avcodec_receive_frame = (\<lambda>k. 0),
      scale_frame = (\<lambda>nc. (NCERR_SUCCESS, nc))\<rparr>"


definition stop_at_third :: "ncvisual \<Rightarrow> nat \<Rightarrow> (int \<times> ncvisual \<times> nat) option" where
  "stop_at_third ncv n = Some (if n = 2 then 7 else 0, ncv, Suc n)"

definition three_frames ::
  "stream_end \<times> nc_err_e \<times> stream_event list \<times> avstate \<times> ncvisual \<times> plane_op list \<times> nat" where
  "three_frames =
     ncvisual_stream 5 (ffmpeg_player 4 av_plays surface0 1 (Some stop_at_third))
       (avstate0, visual_2x2\<lparr>fmtctx := True\<rparr>, [], 0)"

section \<open>Properties\<close>

subsection \<open>Reads, writes and the arithmetic of C\<close>

lemma rd_Inr: "rd xs i = Inr p \<longleftrightarrow> 0 \<le> i \<and> i < int (length xs) \<and> p = xs ! nat i"
  by (auto simp: rd_def)

lemma wr_Inr: "wr xs i v = Inr ys \<longleftrightarrow> 0 \<le> i \<and> i < int (length xs) \<and> ys = xs[nat i := v]"
  by (auto simp: wr_def)

subsection \<open>The pixel conversion, bit by bit\<close>

lemma mask_ff00: "(0xff00 :: pixel) = push_bit 8 (mask 8)"
  by (simp add: mask_eq_exp_minus_1 push_bit_eq_mult)

lemma mask_ff00ff: "(0xff00ff :: pixel) = mask 8 OR push_bit 16 (mask 8)"
  by (simp add: mask_eq_exp_minus_1 push_bit_eq_mult)

lemma mask_ff000000: "(0xff000000 :: pixel) = push_bit 24 (mask 8)"
  by (simp add: mask_eq_exp_minus_1 push_bit_eq_mult)

lemma bit_bgra_pixel:
  "n < 32 \<Longrightarrow> bit (bgra_pixel p) n =
     (if n < 8 \<or> (16 \<le> n \<and> n < 24) then bit p n
      else if n < 16 then bit p (n + 16) else bit p (n - 16))"
  unfolding bgra_pixel_def mask_ff00 mask_ff00ff mask_ff000000
  by (auto simp: bit_simps add.commute)

lemma bgra_pixel_twice: "bgra_pixel (bgra_pixel p) = p"
  by (rule bit_word_eqI) (auto simp: bit_bgra_pixel)

subsection \<open>The conversion loops\<close>

declare bgra_cols.simps [simp del] bgra_rows.simps [simp del]

lemma bgra_cols_Inr:
  "bgra_cols src rs cols y x ret = Inr out \<Longrightarrow> cols_post src (c_div rs 4 * y) cols x ret out"
proof (induction src rs cols y x ret arbitrary: out rule: bgra_cols.induct)
  case (1 src rs cols y x ret)
  let ?b = "c_div rs 4 * y"
  show ?case
  proof (cases "x < cols")
    case False
    with "1.prems" show ?thesis
      by (auto simp: bgra_cols.simps [of src rs cols y x ret] cols_post_def)
  next
    case True
    from "1.prems" True obtain p ret' where
      p: "rd src (?b + x) = Inr p" and
      r: "wr ret (?b + x) (bgra_pixel p) = Inr ret'" and
      rec: "bgra_cols src rs cols y (x + 1) ret' = Inr out"
      by (auto simp: bgra_cols.simps [of src rs cols y x ret] split: sum.splits)
    from "1.IH" [OF True p r rec] have ih: "cols_post src ?b cols (x + 1) ret' out" .
    from p have pb: "0 \<le> ?b + x" "?b + x < int (length src)" "p = src ! nat (?b + x)"
      by (simp_all add: rd_Inr)
    from r have rb: "?b + x < int (length ret)" "ret' = ret[nat (?b + x) := bgra_pixel p]"
      by (simp_all add: wr_Inr)
    have len: "length out = length ret"
      using ih rb by (simp add: cols_post_def)
    have here: "out ! nat (?b + x) = bgra_pixel (src ! nat (?b + x))"
    proof -
      have "nat (?b + x) < length ret'" using pb rb by simp
      moreover have "\<forall>x'. x + 1 \<le> x' \<and> x' < cols \<longrightarrow> int (nat (?b + x)) \<noteq> ?b + x'"
        using pb by auto
      ultimately have "out ! nat (?b + x) = ret' ! nat (?b + x)"
        using ih unfolding cols_post_def by blast
      then show ?thesis using pb rb by simp
    qed
    have written: "0 \<le> ?b + x' \<and> ?b + x' < int (length src) \<and> ?b + x' < int (length ret) \<and>
        out ! nat (?b + x') = bgra_pixel (src ! nat (?b + x'))" if "x \<le> x'" "x' < cols" for x'
    proof (cases "x' = x")
      case True
      then show ?thesis using pb rb here by simp
    next
      case False
      with that have "x + 1 \<le> x' \<and> x' < cols" by simp
      with ih rb show ?thesis unfolding cols_post_def by simp
    qed
    have other: "out ! i = ret ! i"
      if "i < length ret" "\<forall>x'. x \<le> x' \<and> x' < cols \<longrightarrow> int i \<noteq> ?b + x'" for i
    proof -
      from that True have ne: "int i \<noteq> ?b + x" by auto
      from that have "\<forall>x'. x + 1 \<le> x' \<and> x' < cols \<longrightarrow> int i \<noteq> ?b + x'" by auto
      with ih that rb have "out ! i = ret' ! i" unfolding cols_post_def by simp
      with ne rb pb show ?thesis by (simp add: nth_list_update)
    qed
    show ?thesis
      unfolding cols_post_def using len written other by blast
  qed
qed


lemma bgra_cols_total:
  "\<forall>x'. x \<le> x' \<and> x' < cols \<longrightarrow>
      0 \<le> c_div rs 4 * y + x' \<and> c_div rs 4 * y + x' < int (length src) \<and>
      c_div rs 4 * y + x' < int (length ret) \<Longrightarrow>
   \<exists>out. bgra_cols src rs cols y x ret = Inr out"
proof (induction src rs cols y x ret rule: bgra_cols.induct)
  case (1 src rs cols y x ret)
  let ?b = "c_div rs 4 * y"
  show ?case
  proof (cases "x < cols")
    case False
    then show ?thesis by (simp add: bgra_cols.simps [of src rs cols y x ret])
  next
    case True
    with "1.prems" have inb: "0 \<le> ?b + x" "?b + x < int (length src)" "?b + x < int (length ret)"
      by auto
    define p where "p = src ! nat (?b + x)"
    define ret' where "ret' = ret[nat (?b + x) := bgra_pixel p]"
    have p: "rd src (?b + x) = Inr p" using inb by (simp add: rd_Inr p_def)
    have r: "wr ret (?b + x) (bgra_pixel p) = Inr ret'" using inb by (simp add: wr_Inr ret'_def)
    have "\<forall>x'. x + 1 \<le> x' \<and> x' < cols \<longrightarrow>
      0 \<le> ?b + x' \<and> ?b + x' < int (length src) \<and> ?b + x' < int (length ret')"
      using "1.prems" by (simp add: ret'_def)
    from "1.IH" [OF True p r this] obtain out where
      "bgra_cols src rs cols y (x + 1) ret' = Inr out" by blast
    with True p r show ?thesis by (simp add: bgra_cols.simps [of src rs cols y x ret])
  qed
qed

lemma bgra_rows_Inr:
  "bgra_rows src rows rs cols y ret = Inr out \<Longrightarrow> rows_post src (c_div rs 4) rows cols y ret out"
proof (induction src rows rs cols y ret arbitrary: out rule: bgra_rows.induct)
  case (1 src rows rs cols y ret)
  let ?w = "c_div rs 4"
  show ?case
  proof (cases "y < rows")
    case False
    with "1.prems" show ?thesis
      by (auto simp: bgra_rows.simps [of src rows rs cols y ret] rows_post_def)
  next
    case True
    from "1.prems" True obtain ret' where
      c: "bgra_cols src rs cols y 0 ret = Inr ret'" and
      rec: "bgra_rows src rows rs cols (y + 1) ret' = Inr out"
      by (auto simp: bgra_rows.simps [of src rows rs cols y ret] split: sum.splits)
    from bgra_cols_Inr [OF c] have cp: "cols_post src (?w * y) cols 0 ret ret'" .
    from "1.IH" [OF True c rec] have ih: "rows_post src ?w rows cols (y + 1) ret' out" .
    from cp have len': "length ret' = length ret" by (simp add: cols_post_def)
    from ih len' have len: "length out = length ret" by (simp add: rows_post_def)
    have later: "0 \<le> ?w * y' + x' \<and> ?w * y' + x' < int (length src) \<and>
        ?w * y' + x' < int (length ret) \<and>
        out ! nat (?w * y' + x') = bgra_pixel (src ! nat (?w * y' + x'))"
      if "y + 1 \<le> y'" "y' < rows" "0 \<le> x'" "x' < cols" for y' x'
      using ih that len' unfolding rows_post_def by simp
    have written: "0 \<le> ?w * y' + x' \<and> ?w * y' + x' < int (length src) \<and>
        ?w * y' + x' < int (length ret) \<and>
        out ! nat (?w * y' + x') = bgra_pixel (src ! nat (?w * y' + x'))"
      if "y \<le> y'" "y' < rows" "0 \<le> x'" "x' < cols" for y' x'
    proof (cases "y' = y")
      case False
      with that show ?thesis using later [of y' x'] by simp
    next
      case eq: True
      let ?i = "?w * y + x'"
      from cp that have rng: "0 \<le> ?i" "?i < int (length src)" "?i < int (length ret)"
        and val: "ret' ! nat ?i = bgra_pixel (src ! nat ?i)"
        unfolding cols_post_def by simp_all
      have "out ! nat ?i = bgra_pixel (src ! nat ?i)"
      proof (cases "\<exists>y'' x''. y + 1 \<le> y'' \<and> y'' < rows \<and> 0 \<le> x'' \<and> x'' < cols \<and>
                      ?i = ?w * y'' + x''")
        case True
        then obtain y'' x'' where yx: "y + 1 \<le> y''" "y'' < rows" "0 \<le> x''" "x'' < cols"
          and e: "?i = ?w * y'' + x''" by blast
        from later [OF yx] e show ?thesis by simp
      next
        case False
        then have "\<forall>y'' x''. y + 1 \<le> y'' \<and> y'' < rows \<and> 0 \<le> x'' \<and> x'' < cols \<longrightarrow>
                     int (nat ?i) \<noteq> ?w * y'' + x''"
          using rng by auto
        moreover have "nat ?i < length ret'" using rng len' by simp
        ultimately have "out ! nat ?i = ret' ! nat ?i"
          using ih unfolding rows_post_def by blast
        with val show ?thesis by simp
      qed
      with rng eq show ?thesis by simp
    qed
    have other: "out ! i = ret ! i"
      if "i < length ret"
         "\<forall>y' x'. y \<le> y' \<and> y' < rows \<and> 0 \<le> x' \<and> x' < cols \<longrightarrow> int i \<noteq> ?w * y' + x'" for i
    proof -
      from that have "\<forall>y' x'. y + 1 \<le> y' \<and> y' < rows \<and> 0 \<le> x' \<and> x' < cols \<longrightarrow>
                        int i \<noteq> ?w * y' + x'" by auto
      with ih that len' have "out ! i = ret' ! i" unfolding rows_post_def by simp
      moreover from that True have "\<forall>x'. 0 \<le> x' \<and> x' < cols \<longrightarrow> int i \<noteq> ?w * y + x'"
        by auto
      with cp that have "ret' ! i = ret ! i" unfolding cols_post_def by simp
      ultimately show ?thesis by simp
    qed
    show ?thesis
      unfolding rows_post_def using len written other by blast
  qed
qed

lemma bgra_rows_total:
  "\<forall>y' x'. y \<le> y' \<and> y' < rows \<and> 0 \<le> x' \<and> x' < cols \<longrightarrow>
      0 \<le> c_div rs 4 * y' + x' \<and> c_div rs 4 * y' + x' < int (length src) \<and>
      c_div rs 4 * y' + x' < int (length ret) \<Longrightarrow>
   \<exists>out. bgra_rows src rows rs cols y ret = Inr out"
proof (induction src rows rs cols y ret rule: bgra_rows.induct)
  case (1 src rows rs cols y ret)
  show ?case
  proof (cases "y < rows")
    case False
    then show ?thesis by (simp add: bgra_rows.simps [of src rows rs cols y ret])
  next
    case True
    with "1.prems" have "\<forall>x'. 0 \<le> x' \<and> x' < cols \<longrightarrow>
      0 \<le> c_div rs 4 * y + x' \<and> c_div rs 4 * y + x' < int (length src) \<and>
      c_div rs 4 * y + x' < int (length ret)" by auto
    from bgra_cols_total [OF this] obtain ret' where
      c: "bgra_cols src rs cols y 0 ret = Inr ret'" by blast
    from bgra_cols_Inr [OF c] have "length ret' = length ret" by (simp add: cols_post_def)
    with "1.prems" have "\<forall>y' x'. y + 1 \<le> y' \<and> y' < rows \<and> 0 \<le> x' \<and> x' < cols \<longrightarrow>
      0 \<le> c_div rs 4 * y' + x' \<and> c_div rs 4 * y' + x' < int (length src) \<and>
      c_div rs 4 * y' + x' < int (length ret')" by simp
    from "1.IH" [OF True c this] obtain out where
      "bgra_rows src rows rs cols (y + 1) ret' = Inr out" by blast
    with True c show ?thesis by (simp add: bgra_rows.simps [of src rows rs cols y ret])
  qed
qed

subsection \<open>C10: which bytes the conversion exchanges\<close>

text \<open>
  Claim C10. For every 32-bit pixel \<open>p\<close>, the word that \<open>bgra_to_rgba\<close> stores for \<open>p\<close>
  has bits 0 to 7 and bits 16 to 23 of \<open>p\<close> unchanged and bits 8 to 15 exchanged with
  bits 24 to 31: \<open>n\<close> ranges over the eight bits of a byte. On a little-endian layout
  these are the second and the fourth byte of the pixel, not the first and the third.
  The last conjunct ties the word to the function: every pixel of the window of a
  converted buffer is that word of the source pixel at the same place.
\<close>

theorem bgra_to_rgba_exchanges_bits_8_15_with_24_31:
  assumes "n < 8"
  shows "bit (bgra_pixel p) n = bit p n \<and>
         bit (bgra_pixel p) (n + 16) = bit p (n + 16) \<and>
         bit (bgra_pixel p) (n + 8) = bit p (n + 24) \<and>
         bit (bgra_pixel p) (n + 24) = bit p (n + 8) \<and>
         (bgra_to_rgba h src rows rs cols = Inr (Some out) \<and>
          0 \<le> y \<and> y < rows \<and> 0 \<le> x \<and> x < cols \<longrightarrow>
            (\<exists>q. rd src (c_div rs 4 * y + x) = Inr q \<and>
                 rd out (c_div rs 4 * y + x) = Inr (bgra_pixel q)))"
proof -
  have bits: "bit (bgra_pixel p) n = bit p n \<and>
         bit (bgra_pixel p) (n + 16) = bit p (n + 16) \<and>
         bit (bgra_pixel p) (n + 8) = bit p (n + 24) \<and>
         bit (bgra_pixel p) (n + 24) = bit p (n + 8)"
    using assms by (simp add: bit_bgra_pixel add.commute)
  have buf: "\<exists>q. rd src (c_div rs 4 * y + x) = Inr q \<and>
                 rd out (c_div rs 4 * y + x) = Inr (bgra_pixel q)"
    if r: "bgra_to_rgba h src rows rs cols = Inr (Some out)"
      and yx: "0 \<le> y" "y < rows" "0 \<le> x" "x < cols"
  proof -
    from r obtain ret where "bgra_rows src rows rs cols 0 ret = Inr out"
      by (auto simp: bgra_to_rgba_def split: if_splits option.splits sum.splits)
    from bgra_rows_Inr [OF this] have "rows_post src (c_div rs 4) rows cols 0 ret out" .
    with yx show ?thesis
      unfolding rows_post_def by (simp add: rd_def)
  qed
  from bits buf show ?thesis by blast
qed

theorem bgra_to_rgba_exchanges_bits_8_15_with_24_31_witness:
  "(3::nat) < 8 \<and>
   bit (bgra_pixel 0x11223344) (3 + 8) = bit (0x11223344 :: pixel) (3 + 24) \<and>
   bgra_to_rgba heap0 [0x11223344] 1 4 1 = Inr (Some [0x33221144]) \<and>
   rd [0x33221144] (c_div 4 4 * 0 + 0) = Inr (bgra_pixel 0x11223344)"
proof -
  have r: "bgra_to_rgba heap0 [0x11223344] 1 4 1 = Inr (Some [0x33221144])"
    by (simp add: bgra_to_rgba_def c_mod_def c_div_def s32_def malloc_pixels_def heap0_def
        bgra_rows.simps bgra_cols.simps rd_def wr_def bgra_pixel_def)
  from bgra_to_rgba_exchanges_bits_8_15_with_24_31
         [of 3 "0x11223344" heap0 "[0x11223344]" 1 4 1 "[0x33221144]" 0 0] r
  show ?thesis
    by (auto simp: rd_def)
qed

subsection \<open>C5: converting twice\<close>

lemma c_div_times_4: "c_div (c * 4) 4 = c"
  by (simp add: c_div_def sgn_mult abs_mult mult_sgn_abs)

lemma c_mod_times_4: "c_mod (c * 4) 4 = 0"
  by (simp add: c_mod_def c_div_times_4)

lemma s32_le: "0 \<le> v \<Longrightarrow> s32 v \<le> v"
proof -
  assume "0 \<le> v"
  then have "(v + 2147483648) mod 4294967296 \<le> v + 2147483648"
    by (intro zmod_le_nonneg_dividend) simp
  then show ?thesis by (simp add: s32_def)
qed

lemma s32_id: "- 2147483648 \<le> v \<Longrightarrow> v < 2147483648 \<Longrightarrow> s32 v = v"
  by (simp add: s32_def)

lemma length_malloc_pixels:
  "malloc_pixels h n = Some ret \<Longrightarrow> 0 \<le> n \<and> grants h n \<and> length ret = nat (n div 4)"
  by (auto simp: malloc_pixels_def split: if_splits)

lemma rows_post_dense:
  assumes post: "rows_post src cols rows cols 0 ret out"
    and valid: "0 \<le> rows" "0 \<le> cols" "int (length src) = rows * cols"
  shows "rows * cols \<le> int (length ret) \<and>
         (\<forall>i < length src. out ! i = bgra_pixel (src ! i))"
proof -
  have px: "int i < int (length ret) \<and> out ! i = bgra_pixel (src ! i)" if "i < length src" for i
  proof -
    from that valid have lt: "int i < rows * cols" by simp
    with valid have cpos: "0 < cols"
      by (metis less_le mult_zero_right not_less of_nat_0_le_iff)
    define y where "y = int i div cols"
    define x where "x = int i mod cols"
    have x: "0 \<le> x" "x < cols" using cpos by (simp_all add: x_def)
    have y0: "0 \<le> y" using cpos by (simp add: y_def pos_imp_zdiv_nonneg_iff)
    have e: "cols * y + x = int i" by (simp add: x_def y_def)
    have yr: "y < rows"
    proof (rule ccontr)
      assume "\<not> y < rows"
      then have "rows * cols \<le> y * cols"
        using cpos by (intro mult_right_mono) simp_all
      also have "\<dots> \<le> cols * y + x" using x by (simp add: mult.commute)
      finally show False using lt e by simp
    qed
    from post x y0 yr have "cols * y + x < int (length ret) \<and>
        out ! nat (cols * y + x) = bgra_pixel (src ! nat (cols * y + x))"
      unfolding rows_post_def by simp
    then show ?thesis by (simp add: e)
  qed
  have "rows * cols \<le> int (length ret)"
  proof (cases "length src")
    case 0
    with valid show ?thesis by auto
  next
    case (Suc k)
    then have "k < length src" by simp
    from px [OF this] have "int k < int (length ret)" by simp
    with Suc valid show ?thesis by simp
  qed
  with px show ?thesis by blast
qed


lemma bgra_to_rgba_dense:
  assumes valid: "0 \<le> rows" "0 \<le> cols" "int (length src) = rows * cols"
    and r: "bgra_to_rgba h src rows (cols * 4) cols = Inr (Some out)"
  shows "out = map bgra_pixel src"
proof -
  from r obtain ret where
    m: "malloc_pixels h (s32 (cols * 4 * rows)) = Some ret" and
    l: "bgra_rows src rows (cols * 4) cols 0 ret = Inr out"
    by (auto simp: bgra_to_rgba_def split: if_splits option.splits sum.splits)
  from bgra_rows_Inr [OF l] have post: "rows_post src cols rows cols 0 ret out"
    by (simp add: c_div_times_4)
  from rows_post_dense [OF post valid] have
    ge: "rows * cols \<le> int (length ret)" and
    px: "\<forall>i < length src. out ! i = bgra_pixel (src ! i)" by simp_all
  from length_malloc_pixels [OF m] have
    n0: "0 \<le> s32 (cols * 4 * rows)" and len: "length ret = nat (s32 (cols * 4 * rows) div 4)"
    by simp_all
  have "0 \<le> cols * 4 * rows" using valid by simp
  from s32_le [OF this] have "s32 (cols * 4 * rows) div 4 \<le> (cols * 4 * rows) div 4"
    by (intro zdiv_mono1) simp_all
  also have "(cols * 4 * rows) div 4 = rows * cols" by simp
  finally have "s32 (cols * 4 * rows) div 4 \<le> rows * cols" .
  with len n0 have "int (length ret) \<le> rows * cols" by simp
  with ge valid have "length ret = length src" by simp
  moreover from post have "length out = length ret" by (simp add: rows_post_def)
  ultimately have "length out = length src" by simp
  with px show ?thesis by (simp add: list_eq_iff_nth_eq)
qed

lemma bgra_to_rgba_dense_total:
  assumes valid: "0 \<le> rows" "0 \<le> cols" "int (length src) = rows * cols"
    and fits: "cols * 4 * rows < 2147483648" and g: "grants h (cols * 4 * rows)"
  shows "bgra_to_rgba h src rows (cols * 4) cols = Inr (Some (map bgra_pixel src))"
proof -
  have n0: "0 \<le> cols * 4 * rows" using valid by simp
  with fits have s: "s32 (cols * 4 * rows) = cols * 4 * rows" by (simp add: s32_id)
  define ret where "ret = map (junk h) [0..<nat (cols * 4 * rows div 4)]"
  have m: "malloc_pixels h (s32 (cols * 4 * rows)) = Some ret"
    using n0 g by (simp add: malloc_pixels_def s ret_def)
  have len: "int (length ret) = rows * cols"
    using valid by (simp add: ret_def mult.commute mult.left_commute)
  have "\<forall>y' x'. 0 \<le> y' \<and> y' < rows \<and> 0 \<le> x' \<and> x' < cols \<longrightarrow>
      0 \<le> c_div (cols * 4) 4 * y' + x' \<and> c_div (cols * 4) 4 * y' + x' < int (length src) \<and>
      c_div (cols * 4) 4 * y' + x' < int (length ret)"
  proof (intro allI impI)
    fix y' x' :: int
    assume a: "0 \<le> y' \<and> y' < rows \<and> 0 \<le> x' \<and> x' < cols"
    then have "y' + 1 \<le> rows" by simp
    then have "cols * (y' + 1) \<le> cols * rows" using valid by (intro mult_left_mono) simp_all
    then have "cols * y' + x' < rows * cols" using a by (simp add: algebra_simps)
    with a valid len show "0 \<le> c_div (cols * 4) 4 * y' + x' \<and>
      c_div (cols * 4) 4 * y' + x' < int (length src) \<and>
      c_div (cols * 4) 4 * y' + x' < int (length ret)"
      by (simp add: c_div_times_4)
  qed
  from bgra_rows_total [OF this] obtain out where
    l: "bgra_rows src rows (cols * 4) cols 0 ret = Inr out" by blast
  with m have r: "bgra_to_rgba h src rows (cols * 4) cols = Inr (Some out)"
    by (simp add: bgra_to_rgba_def c_mod_times_4)
  from bgra_to_rgba_dense [OF valid r] r show ?thesis by simp
qed

text \<open>
  Claim C5. For every buffer of \<open>rows\<close> by \<open>cols\<close> pixels whose row stride is
  \<open>cols * 4\<close> bytes, \<open>bgra_to_rgba\<close> applied twice returns the original buffer, bit for
  bit. First conjunct: whenever both conversions return a buffer, the second buffer is
  the input. Second conjunct: both conversions do return a buffer when the byte size
  fits an \<^verbatim>\<open>int\<close> and the heap grants the two blocks.
\<close>

theorem bgra_to_rgba_twice_is_identity:
  assumes "0 \<le> rows" "0 \<le> cols" "rs = cols * 4" "int (length src) = rows * cols"
  shows "(bgra_to_rgba h src rows rs cols = Inr (Some mid) \<and>
          bgra_to_rgba h' mid rows rs cols = Inr (Some out) \<longrightarrow> out = src) \<and>
         (rs * rows < 2147483648 \<and> grants h (rs * rows) \<and> grants h' (rs * rows) \<longrightarrow>
          (\<exists>mid. bgra_to_rgba h src rows rs cols = Inr (Some mid) \<and>
                 bgra_to_rgba h' mid rows rs cols = Inr (Some src)))"
proof -
  have twice: "map bgra_pixel (map bgra_pixel src) = src"
    by (simp add: bgra_pixel_twice comp_def)
  have part: "out = src"
    if a: "bgra_to_rgba h src rows rs cols = Inr (Some mid)"
      and b: "bgra_to_rgba h' mid rows rs cols = Inr (Some out)"
  proof -
    from a assms have mid: "mid = map bgra_pixel src"
      by (intro bgra_to_rgba_dense [of rows cols src h]) simp_all
    then have "int (length mid) = rows * cols" using assms by simp
    with b assms have "out = map bgra_pixel mid"
      by (intro bgra_to_rgba_dense [of rows cols mid h']) simp_all
    with mid twice show ?thesis by simp
  qed
  have tot: "\<exists>mid. bgra_to_rgba h src rows rs cols = Inr (Some mid) \<and>
                 bgra_to_rgba h' mid rows rs cols = Inr (Some src)"
    if f: "rs * rows < 2147483648" and g: "grants h (rs * rows)" "grants h' (rs * rows)"
  proof -
    from assms f g have 1: "bgra_to_rgba h src rows rs cols = Inr (Some (map bgra_pixel src))"
      using bgra_to_rgba_dense_total [of rows cols src h] by simp
    have "int (length (map bgra_pixel src)) = rows * cols" using assms by simp
    with assms f g have "bgra_to_rgba h' (map bgra_pixel src) rows rs cols =
        Inr (Some (map bgra_pixel (map bgra_pixel src)))"
      using bgra_to_rgba_dense_total [of rows cols "map bgra_pixel src" h'] by simp
    with 1 twice show ?thesis by simp
  qed
  from part tot show ?thesis by blast
qed


theorem bgra_to_rgba_twice_is_identity_witness:
  "(0::int) \<le> 1 \<and> (0::int) \<le> 2 \<and> (8::int) = 2 * 4 \<and>
   int (length [0x11223344, 0xAABBCCDD :: pixel]) = 1 * 2 \<and>
   (\<exists>mid. bgra_to_rgba heap0 [0x11223344, 0xAABBCCDD] 1 8 2 = Inr (Some mid) \<and>
          bgra_to_rgba heap0 mid 1 8 2 = Inr (Some [0x11223344, 0xAABBCCDD]))"
  using bgra_to_rgba_twice_is_identity [of 1 2 8 "[0x11223344, 0xAABBCCDD]" heap0 "[0x33221144, 0xCCBBAADD]" heap0
      "[0x11223344, 0xAABBCCDD]"]
  by (simp add: heap0_def)

subsection \<open>The concrete visual\<close>

lemma from_rgba_visual_2x2: "ncvisual_from_rgba surface0 heap0 \<lparr>utf8 = False\<rparr> [1, 2, 3, 4] 2 8 2 = Inr (Some visual_2x2)"
  by (simp add: ncvisual_from_rgba_def c_mod_def c_div_def set_encoding_vert_scale_def
      ncvisual_create_def surface0_def memdup_def malloc_pixels_def heap0_def s32_def
      ncvisual_set_data_def visual_2x2_def Let_def)

subsection \<open>C4: windows that render rejects\<close>

text \<open>
  \<open>ncvisual_render\<close> returns the error \<open>-1\<close> and issues no operation on the plane (no
  cursor move, no blit) for every request with \<open>begy < 0\<close>, or \<open>begx < 0\<close>, or an origin
  that is not inside the \<open>dstheight\<close> by \<open>dstwidth\<close> buffer, or, the lengths \<open>-1\<close>
  replaced by what is left of the buffer, a 32-bit \<^verbatim>\<open>int\<close> sum \<^verbatim>\<open>begy + leny\<close> above
  \<open>dstheight\<close> or \<^verbatim>\<open>begx + lenx\<close> above \<open>dstwidth\<close>. The visual is a \<^verbatim>\<open>const\<close> argument:
  the model returns no new visual.
\<close>

lemma ncvisual_render_rejects_wrapped_sums:
  assumes "begy < 0 \<or> begx < 0 \<or> dstheight ncv \<le> begy \<or> dstwidth ncv \<le> begx \<or>
           dstheight ncv < s32 (begy + (if leny = - 1 then dstheight ncv - begy else leny)) \<or>
           dstwidth ncv < s32 (begx + (if lenx = - 1 then dstwidth ncv - begx else lenx))"
  shows "ncvisual_render sf ncv begy begx leny lenx = Inr (- 1, [])"
  using assms
  by (auto simp: ncvisual_render_def Let_def split: option.splits)

lemma ncvisual_render_rejects_wrapped_sums_examples:
  "ncvisual_render surface0 visual_2x2 0 1 1 2 = Inr (- 1, []) \<and>
   ncvisual_render surface0 visual_2x2 0 (- 1) 1 1 = Inr (- 1, []) \<and>
   ncvisual_render surface0 visual_2x2 2 0 (- 1) (- 1) = Inr (- 1, [])"
  using ncvisual_render_rejects_wrapped_sums [of 0 1 visual_2x2 1 2 surface0]
    ncvisual_render_rejects_wrapped_sums [of 0 "- 1" visual_2x2 1 1 surface0]
    ncvisual_render_rejects_wrapped_sums [of 2 0 visual_2x2 "- 1" "- 1" surface0]
  by (simp add: visual_2x2_def s32_def)

text \<open>
  The same with the sums of the integers, for sums below \<open>2\<^sup>3\<^sup>1\<close>: these are the
  requests whose window, at a valid origin, reaches beyond the buffer.
\<close>

lemma ncvisual_render_rejects_window_beyond_buffer:
  assumes "0 \<le> begy" "0 \<le> begx" "0 \<le> leny" "0 \<le> lenx"
    and "dstheight ncv < begy + leny \<and> begy + leny < 2147483648 \<or>
         dstwidth ncv < begx + lenx \<and> begx + lenx < 2147483648"
  shows "ncvisual_render sf ncv begy begx leny lenx = Inr (- 1, [])"
proof -
  have "s32 (begy + leny) = begy + leny" if "begy + leny < 2147483648"
    using that assms(1,3) by (intro s32_id) simp_all
  moreover have "s32 (begx + lenx) = begx + lenx" if "begx + lenx < 2147483648"
    using that assms(2,4) by (intro s32_id) simp_all
  ultimately show ?thesis
    using assms by (auto simp: ncvisual_render_def Let_def split: option.splits)
qed

text \<open>
  Claim C4 says that \<open>ncvisual_render\<close> returns an error and never calls the blit for
  every request with \<open>begx + lenx > dstwidth\<close>. On the 2 by 2 visual,
  \<^verbatim>\<open>ncvisual_render(ncv, 0, 1, 1, 2147483647)\<close> asks for a window that starts in column 1
  and is \<open>2147483647\<close> columns wide: \<open>begx + lenx\<close> is \<open>2\<^sup>3\<^sup>1\<close>, far above \<open>dstwidth = 2\<close>.
  The \<^verbatim>\<open>int\<close> sum of line 317 leaves the range of \<^verbatim>\<open>int\<close> and wraps to \<open>-2\<^sup>3\<^sup>1\<close>, which
  is not above 2: the plane's cursor is moved, the blit is called with that window, and
  its result, here 0, is returned.
\<close>

theorem ncvisual_render_overflowing_window_calls_blit:
  "ncvisual_render surface0 visual_2x2 0 1 1 2147483647 =
     Inr (0, [Cursor_move \<lparr>plane_leny = 2, plane_lenx = 2\<rparr> 0 0,
              Blit_rgba \<lparr>bl_plane = \<lparr>plane_leny = 2, plane_lenx = 2\<rparr>, bl_placey = 0,
                  bl_placex = 0, bl_linesize = 8, bl_data = [1, 2, 3, 4], bl_begy = 0,
                  bl_begx = 1, bl_leny = 1, bl_lenx = 2147483647\<rparr>])"
  by (simp add: ncvisual_render_def visual_2x2_def surface0_def s32_def)

subsection \<open>C3: the empty window\<close>

text \<open>
  An explicit window of length zero inside the buffer passes the test
  \<^verbatim>\<open>lenx < 0 || leny < 0\<close>, whose comment reads ``no need to draw zero-size object,
  exit'': the plane's cursor is moved and the blit is called with that window.
\<close>

lemma ncvisual_render_empty_window_blits:
  assumes "data ncv = Some d" "ncp ncv = Some n"
    "0 \<le> begy" "begy < dstheight ncv" "0 \<le> begx" "begx < dstwidth ncv"
    "leny = 0 \<or> lenx = 0" "0 \<le> leny" "0 \<le> lenx"
    "s32 (begy + leny) \<le> dstheight ncv" "s32 (begx + lenx) \<le> dstwidth ncv"
  shows "ncvisual_render sf ncv begy begx leny lenx =
     Inr (ncblit_rgba sf \<lparr>bl_plane = n, bl_placey = placey ncv, bl_placex = placex ncv,
                                  bl_linesize = rowstride ncv, bl_data = d, bl_begy = begy,
                                  bl_begx = begx, bl_leny = leny, bl_lenx = lenx\<rparr>,
          [Cursor_move n 0 0, Blit_rgba \<lparr>bl_plane = n, bl_placey = placey ncv, bl_placex = placex ncv,
                                  bl_linesize = rowstride ncv, bl_data = d, bl_begy = begy,
                                  bl_begx = begx, bl_leny = leny, bl_lenx = lenx\<rparr>])"
  using assms
  by (auto simp: ncvisual_render_def Let_def split: option.splits)

text \<open>
  Claim C3 says that \<open>ncvisual_render\<close> with an explicit zero-length window succeeds and
  does not call the blit. On the 2 by 2 visual, \<^verbatim>\<open>ncvisual_render(ncv, 0, 0, 0, 0)\<close> calls
  \<^verbatim>\<open>ncblit_rgba\<close> with \<open>leny = 0\<close> and \<open>lenx = 0\<close> and returns what the blit returns.
\<close>

theorem ncvisual_render_zero_window_calls_blit:
  "ncvisual_render surface0 visual_2x2 0 0 0 0 =
     Inr (0, [Cursor_move \<lparr>plane_leny = 2, plane_lenx = 2\<rparr> 0 0,
              Blit_rgba \<lparr>bl_plane = \<lparr>plane_leny = 2, plane_lenx = 2\<rparr>, bl_placey = 0,
                  bl_placex = 0, bl_linesize = 8, bl_data = [1, 2, 3, 4], bl_begy = 0,
                  bl_begx = 0, bl_leny = 0, bl_lenx = 0\<rparr>])"
  by (simp add: ncvisual_render_def visual_2x2_def surface0_def s32_def)

subsection \<open>C6: from a raw buffer to the blit\<close>

lemma c_mod_4_dvd: "c_mod s 4 = 0 \<Longrightarrow> 0 \<le> s \<Longrightarrow> c_div s 4 * 4 = s"
  by (auto simp: c_mod_def)

text \<open>
  Claim C6. For a valid RGBA buffer (at least one row and one column, a stride that
  holds a row, a byte size that fits an \<^verbatim>\<open>int\<close>), every visual that
  \<open>ncvisual_from_rgba\<close> returns makes \<^verbatim>\<open>ncvisual_render(ncv, 0, 0, -1, -1)\<close> call the blit
  once, with the input's stride, the window of all \<open>rows\<close> by \<open>cols\<close> pixels, and a
  buffer in which every pixel of that window is the input's pixel at the same place.
  Second conjunct: the constructor does return a visual when the stride is a multiple
  of 4, the input holds \<open>stride * rows\<close> bytes, and the plane and the copy are granted.
\<close>

theorem from_rgba_render_passes_input_pixels:
  assumes valid: "0 < rows" "0 < cols" "cols * 4 \<le> stride" "stride * rows < 2147483648"
  shows "(ncvisual_from_rgba sf h nc rgba rows stride cols = Inr (Some ncv) \<longrightarrow>
          (\<exists>n call.
             ncp ncv = Some n \<and>
             ncvisual_render sf ncv 0 0 (- 1) (- 1) =
               Inr (ncblit_rgba sf call, [Cursor_move n 0 0, Blit_rgba call]) \<and>
             bl_plane call = n \<and> bl_linesize call = stride \<and>
             bl_begy call = 0 \<and> bl_begx call = 0 \<and> bl_leny call = rows \<and> bl_lenx call = cols \<and>
             (\<forall>y x. 0 \<le> y \<and> y < rows \<and> 0 \<le> x \<and> x < cols \<longrightarrow>
                (\<exists>p. rd rgba (c_div stride 4 * y + x) = Inr p \<and>
                     rd (bl_data call) (c_div stride 4 * y + x) = Inr p)))) \<and>
         (c_mod stride 4 = 0 \<and> stride * rows \<le> 4 * int (length rgba) \<and>
          grants h (stride * rows) \<and>
          ncplane_new sf (if utf8 nc then c_div rows 2 + c_mod rows 2 else rows) cols 0 0 \<noteq> None
          \<longrightarrow> (\<exists>ncv. ncvisual_from_rgba sf h nc rgba rows stride cols = Inr (Some ncv)))"
proof -
  have spos: "0 < stride" using valid by simp
  have n0: "0 \<le> stride * rows" using valid spos by simp
  with valid have s: "s32 (stride * rows) = stride * rows" by (simp add: s32_def)
  have part: "\<exists>n call.
             ncp ncv = Some n \<and>
             ncvisual_render sf ncv 0 0 (- 1) (- 1) =
               Inr (ncblit_rgba sf call, [Cursor_move n 0 0, Blit_rgba call]) \<and>
             bl_plane call = n \<and> bl_linesize call = stride \<and>
             bl_begy call = 0 \<and> bl_begx call = 0 \<and> bl_leny call = rows \<and> bl_lenx call = cols \<and>
             (\<forall>y x. 0 \<le> y \<and> y < rows \<and> 0 \<le> x \<and> x < cols \<longrightarrow>
                (\<exists>p. rd rgba (c_div stride 4 * y + x) = Inr p \<and>
                     rd (bl_data call) (c_div stride 4 * y + x) = Inr p))"
    if r: "ncvisual_from_rgba sf h nc rgba rows stride cols = Inr (Some ncv)"
  proof -
    from r have m4: "c_mod stride 4 = 0"
      by (auto simp: ncvisual_from_rgba_def split: if_splits)
    from r m4 obtain n d where
      md: "memdup h rgba (s32 (stride * rows)) = Inr (Some d)" and
      ncv: "ncv = ncvisual_set_data
        ((set_encoding_vert_scale nc (ncvisual_create 1))
           \<lparr>rowstride := stride, ncobj := Some nc, dstwidth := cols, dstheight := rows,
            ncp := Some n\<rparr>) (Some d) True"
      by (auto simp: ncvisual_from_rgba_def Let_def set_encoding_vert_scale_def
          split: option.splits sum.splits)
    from md have fits: "stride * rows \<le> 4 * int (length rgba)"
      and d: "d = take (nat (stride * rows div 4)) rgba"
      by (auto simp: memdup_def s split: option.splits if_splits)
    define call where "call = \<lparr>bl_plane = n, bl_placey = 0, bl_placex = 0,
       bl_linesize = stride, bl_data = d, bl_begy = 0, bl_begx = 0, bl_leny = rows,
       bl_lenx = cols\<rparr>"
    have sr: "s32 rows \<le> rows" "s32 cols \<le> cols"
      using valid s32_le [of rows] s32_le [of cols] by simp_all
    have ren: "ncvisual_render sf ncv 0 0 (- 1) (- 1) =
               Inr (ncblit_rgba sf call, [Cursor_move n 0 0, Blit_rgba call])"
      using valid sr
      by (simp add: ncvisual_render_def ncv ncvisual_set_data_def set_encoding_vert_scale_def
          ncvisual_create_def call_def Let_def)
    have w: "c_div stride 4 * 4 = stride" using m4 spos by (simp add: c_mod_4_dvd)
    have wc: "cols \<le> c_div stride 4" using valid w by simp
    have px: "\<exists>p. rd rgba (c_div stride 4 * y + x) = Inr p \<and>
                   rd (bl_data call) (c_div stride 4 * y + x) = Inr p"
      if yx: "0 \<le> y \<and> y < rows \<and> 0 \<le> x \<and> x < cols" for y x
    proof -
      let ?w = "c_div stride 4"
      let ?i = "?w * y + x"
      have w0: "0 \<le> ?w" using wc valid by simp
      from yx have "y + 1 \<le> rows" by simp
      then have "?w * (y + 1) \<le> ?w * rows" using w0 by (intro mult_left_mono) simp_all
      with yx wc have lt: "?i < ?w * rows" by (simp add: algebra_simps)
      have tot: "?w * rows = stride * rows div 4"
        using w by (metis mult.commute mult.left_commute nonzero_mult_div_cancel_left
            zero_neq_numeral)
      have i0: "0 \<le> ?i" using yx w0 by simp
      from fits have "stride * rows div 4 \<le> int (length rgba)" by simp
      with lt tot have il: "?i < int (length rgba)" by simp
      have "nat ?i < nat (stride * rows div 4)" using lt tot i0 by simp
      then have "d ! nat ?i = rgba ! nat ?i" by (simp add: d)
      moreover have "?i < int (length d)" using lt tot il i0 by (simp add: d)
      ultimately show ?thesis using i0 il by (simp add: rd_def call_def)
    qed
    from ren px show ?thesis
      by (intro exI [of _ n] exI [of _ call]) (simp add: ncv ncvisual_set_data_def call_def)
  qed
  have tot: "\<exists>ncv. ncvisual_from_rgba sf h nc rgba rows stride cols = Inr (Some ncv)"
    if "c_mod stride 4 = 0" "stride * rows \<le> 4 * int (length rgba)" "grants h (stride * rows)"
      "ncplane_new sf (if utf8 nc then c_div rows 2 + c_mod rows 2 else rows) cols 0 0 \<noteq> None"
    using that n0
    by (auto simp: ncvisual_from_rgba_def Let_def set_encoding_vert_scale_def memdup_def
        malloc_pixels_def s)
  from part tot show ?thesis by blast
qed

theorem from_rgba_render_passes_input_pixels_witness:
  "(0::int) < 2 \<and> (2::int) * 4 \<le> 8 \<and> (8::int) * 2 < 2147483648 \<and>
   ncvisual_from_rgba surface0 heap0 \<lparr>utf8 = False\<rparr> [1, 2, 3, 4] 2 8 2 = Inr (Some visual_2x2) \<and>
   (\<exists>n call.
      ncp visual_2x2 = Some n \<and>
      ncvisual_render surface0 visual_2x2 0 0 (- 1) (- 1) =
        Inr (ncblit_rgba surface0 call, [Cursor_move n 0 0, Blit_rgba call]) \<and>
      bl_plane call = n \<and> bl_linesize call = 8 \<and>
      bl_begy call = 0 \<and> bl_begx call = 0 \<and> bl_leny call = 2 \<and> bl_lenx call = 2 \<and>
      (\<forall>y x. 0 \<le> y \<and> y < 2 \<and> 0 \<le> x \<and> x < 2 \<longrightarrow>
         (\<exists>p. rd [1, 2, 3, 4] (c_div 8 4 * y + x) = Inr p \<and>
              rd (bl_data call) (c_div 8 4 * y + x) = Inr p)))"
proof -
  have v: "ncvisual_from_rgba surface0 heap0 \<lparr>utf8 = False\<rparr> [1, 2, 3, 4] 2 8 2 =
      Inr (Some visual_2x2)"
    by (simp add: ncvisual_from_rgba_def c_mod_def c_div_def set_encoding_vert_scale_def
      ncvisual_create_def surface0_def memdup_def malloc_pixels_def heap0_def s32_def
      ncvisual_set_data_def visual_2x2_def Let_def)
  have a: "(0::int) < 2" "(2::int) * 4 \<le> 8" "(8::int) * 2 < 2147483648" by simp_all
  note from_rgba_render_passes_input_pixels [OF a(1) a(1) a(2) a(3), THEN conjunct1, THEN mp, OF v]
  with v a show ?thesis by blast
qed

subsection \<open>C1: the destination indices of a rotation\<close>

text \<open>
  With a cosine of \<open>-1\<close> (a half turn) and whatever sine, the first pixel of a visual of
  one row and two columns is sent to column 2 of the 2 by 2 destination: its offset
  from the centre, \<open>-1\<close>, becomes \<open>1\<close>, and half the diameter is added.
\<close>

declare rotate_cols.simps [simp del] rotate_rows.simps [simp del]

lemma from_rgba_visual_1x2: "ncvisual_from_rgba surface0 heap0 \<lparr>utf8 = False\<rparr> [1, 2] 1 8 2 = Inr (Some visual_1x2)"
  by (simp add: ncvisual_from_rgba_def c_mod_def c_div_def set_encoding_vert_scale_def
      ncvisual_create_def surface0_def memdup_def malloc_pixels_def heap0_def s32_def
      ncvisual_set_data_def visual_1x2_def Let_def)

lemma rotate_target_half_turn: "rotate_target stheta (- 1) 2 0 1 0 0 = (c_trunc (- stheta) + 1, 2)"
  by (simp add: rotate_target_def c_trunc_def c_div_def Let_def)

lemma rotate_cols_half_turn:
  "dstwidth ncv = 2 \<Longrightarrow> rotate_cols stheta (- 1) ncv src 2 0 1 0 0 dat = Inl AssertionFailed"
  by (simp add: rotate_target_half_turn rotate_cols.simps [of _ _ _ _ _ _ _ _ 0])

lemma rotate_rows_half_turn:
  "dstwidth ncv = 2 \<Longrightarrow> dstheight ncv = 1 \<Longrightarrow>
   rotate_rows stheta (- 1) ncv src 2 0 1 0 dat = Inl AssertionFailed"
  by (simp add: rotate_cols_half_turn rotate_rows.simps [of _ _ _ _ _ _ _ 0])

lemma rotate_new_geom_half_turn:
  "rotate_new_geom surface0 visual_1x2 pi =
     Inr (2, 0, - 1, visual_1x2\<lparr>ncp := Some \<lparr>plane_leny = 2, plane_lenx = 2\<rparr>\<rparr>)"
  by (simp add: rotate_new_geom_def visual_1x2_def surface0_def encoding_vert_scale_def
      c_div_def Let_def)

text \<open>
  Claim C1 says that every destination index of \<open>ncvisual_rotate\<close> lies in \<open>[0, pdiam)\<close>,
  for every visual with data and every angle. On the visual of one row and two columns
  built by \<open>ncvisual_from_rgba\<close>, rotated by \<open>pi\<close>, the first destination is
  \<open>(deconvy, deconvx) = (1, 2)\<close> with \<open>pdiam = 2\<close>, and the assertion
  \<^verbatim>\<open>assert(deconvx < pdiam)\<close> of line 217 fails. Nothing is rounded on the way: the
  row offset \<open>convy\<close> is 0, the cosine of the \<^verbatim>\<open>double\<close> nearest to \<open>pi\<close> is \<open>-1\<close>.
\<close>

theorem ncvisual_rotate_half_turn_fails_assertion: "ncvisual_rotate surface0 heap0 visual_1x2 pi = Inl AssertionFailed"
proof -
  let ?v = "visual_1x2\<lparr>ncp := Some \<lparr>plane_leny = 2, plane_lenx = 2\<rparr>\<rparr>"
  have d: "dstwidth ?v = 2" "dstheight ?v = 1" "rowstride ?v = 8" "data visual_1x2 = Some [1, 2]"
    "ncp ?v = Some \<lparr>plane_leny = 2, plane_lenx = 2\<rparr>"
    by (simp_all add: visual_1x2_def)
  have m: "malloc_pixels heap0 (s32 (s32 4 * 4)) = Some [0, 0, 0, 0]"
    by code_simp
  have r: "rotate_plane surface0 \<lparr>plane_leny = 2, plane_lenx = 2\<rparr> =
      Some \<lparr>plane_leny = 2, plane_lenx = 2\<rparr>"
    by (simp add: surface0_def)
  show ?thesis
    unfolding ncvisual_rotate_def
    by (simp add: rotate_new_geom_half_turn d m r c_div_def rotate_rows_half_turn [of ?v, OF d(1) d(2)])
qed

subsection \<open>C9: the text of a subtitle\<close>

declare deass_commas.simps [simp del] deass_blank.simps [simp del]

lemma deass_commas_strip:
  "commas \<le> 8 \<Longrightarrow>
   map_option (\<lambda>d. drop (d + 1) ass) (deass_commas ass delim commas) =
     (case delim of
        None \<Rightarrow> None
      | Some d \<Rightarrow> strip_fields (nat (8 - commas)) (drop (d + 1) ass))"
proof (induction ass delim commas rule: deass_commas.induct)
  case (1 ass delim commas)
  show ?case
  proof (cases delim)
    case None
    then show ?thesis by (subst deass_commas.simps) simp
  next
    case (Some d)
    show ?thesis
    proof (cases "commas < 8")
      case False
      with "1.prems" have "commas = 8" by simp
      with Some show ?thesis by (subst deass_commas.simps) simp
    next
      case True
      define m where "m = nat (7 - commas)"
      have m: "nat (8 - commas) = Suc m" "nat (8 - (commas + 1)) = m"
        using True unfolding m_def by linarith+
      let ?next = "map_option (\<lambda>k. d + 1 + k) (strchr (drop (d + 1) ass) (CHR '',''))"
      from True have le: "commas + 1 \<le> 8" by simp
      have unf: "deass_commas ass delim commas = deass_commas ass ?next (commas + 1)"
        using Some True by (subst deass_commas.simps) simp
      show ?thesis
      proof (cases "strchr (drop (d + 1) ass) (CHR '','')")
        case None
        then have n: "?next = None" by simp
        have "deass_commas ass None (commas + 1) = None"
          by (subst deass_commas.simps) simp
        with unf n Some None m show ?thesis by simp
      next
        case found: (Some k)
        then have n: "?next = Some (d + 1 + k)" by simp
        from "1.IH" [OF Some True le]
        have "map_option (\<lambda>d. drop (d + 1) ass) (deass_commas ass (Some (d + 1 + k)) (commas + 1)) =
            strip_fields m (drop (d + 1 + k + 1) ass)"
          unfolding n by (simp add: m_def)
        moreover have "drop (Suc k) (drop (d + 1) ass) = drop (d + 1 + k + 1) ass"
          by (simp add: add.commute add.left_commute)
        ultimately show ?thesis
          using unf n Some found m by simp
      qed
    qed
  qed
qed

lemma blank_escapes_plain:
  "x \<noteq> CHR 0x5C \<Longrightarrow> blank_escapes (x # xs) = x # blank_escapes xs"
  by (cases xs) simp_all

lemma lone_backslash_plain:
  "x \<noteq> CHR 0x5C \<Longrightarrow> lone_backslash (x # xs) = lone_backslash xs"
  by (cases xs) simp_all

lemma deass_blank_spec:
  "c \<le> length dup \<Longrightarrow>
   deass_blank dup c =
     (if lone_backslash (drop c dup) then Inl OutOfBounds
      else Inr (take c dup @ blank_escapes (drop c dup)))"
proof (induction dup c rule: deass_blank.induct)
  case (1 dup c)
  show ?case
  proof (cases "c = length dup")
    case True
    then show ?thesis by (subst deass_blank.simps) simp
  next
    case False
    with "1.prems" have lt: "c < length dup" by simp
    then have dr: "drop c dup = dup ! c # drop (Suc c) dup"
      by (simp add: Cons_nth_drop_Suc)
    show ?thesis
    proof (cases "dup ! c = CHR 0x5C")
      case plain: False
      from "1.IH"(3) [OF _ False plain] lt
      have "deass_blank dup (c + 1) =
         (if lone_backslash (drop (c + 1) dup) then Inl OutOfBounds
          else Inr (take (c + 1) dup @ blank_escapes (drop (c + 1) dup)))" by simp
      moreover have "deass_blank dup c = deass_blank dup (c + 1)"
        using lt plain by (subst deass_blank.simps) simp
      ultimately show ?thesis
        using lt plain
        by (simp add: dr blank_escapes_plain lone_backslash_plain take_Suc_conv_app_nth)
    next
      case bs: True
      show ?thesis
      proof (cases "c + 1 < length dup")
        case last: False
        with lt have e: "Suc c = length dup" by simp
        then have "drop c dup = [CHR 0x5C]" using dr bs by simp
        moreover have "deass_blank dup c = deass_blank (dup[c := CHR '' '']) (c + 2)"
          using lt bs last by (subst deass_blank.simps) simp
        moreover have "deass_blank (dup[c := CHR '' '']) (c + 2) = Inl OutOfBounds"
          using e by (subst deass_blank.simps) simp
        ultimately show ?thesis by simp
      next
        case more: True
        let ?dup = "dup[c := CHR '' '', c + 1 := CHR '' '']"
        have dr2: "drop c dup = CHR 0x5C # dup ! (c + 1) # drop (c + 2) dup"
          using more dr bs by (simp add: Cons_nth_drop_Suc)
        from "1.IH"(1) [OF _ False bs more] more
        have ih: "deass_blank ?dup (c + 2) =
           (if lone_backslash (drop (c + 2) ?dup) then Inl OutOfBounds
            else Inr (take (c + 2) ?dup @ blank_escapes (drop (c + 2) ?dup)))" by simp
        have d: "drop (c + 2) ?dup = drop (c + 2) dup" by simp
        have t: "take (c + 2) ?dup = take c dup @ [CHR '' '', CHR '' '']"
          using more
          by (simp add: take_Suc_conv_app_nth numeral_2_eq_2 nth_list_update)
        have "deass_blank dup c = deass_blank ?dup (c + 2)"
          using lt bs more by (subst deass_blank.simps) simp
        with ih d t show ?thesis by (simp add: dr2)
      qed
    qed
  qed
qed


lemma deass_spec:
  assumes "take 9 ass = ''Dialogue:''"
  shows "deass ass =
     (case strip_fields 9 ass of
        None \<Rightarrow> Inr None
      | Some rest \<Rightarrow>
          if lone_backslash rest then Inl OutOfBounds else Inr (Some (blank_escapes rest)))"
proof -
  have nine: "strip_fields 9 ass =
      (case strchr ass (CHR '','') of None \<Rightarrow> None | Some d \<Rightarrow> strip_fields 8 (drop (d + 1) ass))"
    using strip_fields.simps(2) [of 8 ass] by (simp split: option.splits)
  from deass_commas_strip [of 0 ass "strchr ass (CHR '','')"]
  have c: "map_option (\<lambda>d. drop (d + 1) ass) (deass_commas ass (strchr ass (CHR '','')) 0) =
      strip_fields 9 ass"
    by (simp add: nine cong: option.case_cong)
  show ?thesis
  proof (cases "deass_commas ass (strchr ass (CHR '','')) 0")
    case None
    with c have "strip_fields 9 ass = None" by simp
    with None assms show ?thesis by (simp add: deass_def)
  next
    case (Some d)
    with c have r: "strip_fields 9 ass = Some (drop (d + 1) ass)" by simp
    from Some assms r show ?thesis
      by (simp add: deass_def deass_blank_spec)
  qed
qed

text \<open>
  Claim C9 says that a dialogue line loses exactly 8 comma-delimited leading fields. On
  the line that the comment of \<open>deass\<close> gives as its example, the code returns the text
  after the ninth comma; stripping 8 fields would leave the empty ninth field and its
  comma in front of it.
\<close>

theorem ncvisual_subtitle_eight_fields_counterexample:
  "ncvisual_subtitle
     (subtitled [\<lparr>rect_type = SUBTITLE_ASS, rect_text = [], rect_ass = wolf_line\<rparr>]) =
     Inr (Some ''Et les enregistrements de ses ondes delta ?'') \<and>
   map_option blank_escapes (strip_fields 8 wolf_line) =
     Some '',Et les enregistrements de ses ondes delta ?'' \<and>
   ncvisual_subtitle
     (subtitled [\<lparr>rect_type = SUBTITLE_ASS, rect_text = [], rect_ass = wolf_line\<rparr>]) \<noteq>
     Inr (map_option blank_escapes (strip_fields 8 wolf_line))"
  by code_simp

text \<open>
  Claim C9, amended. Without any rectangle \<open>ncvisual_subtitle\<close> returns no text and no
  error. When the first rectangle is plain text, its text is returned as it is. When
  the first rectangle is a dialogue line (it begins with \<open>Dialogue:\<close>), the result is
  what is left after stripping 9 comma-delimited leading fields, every backslash and
  the character after it replaced by two blanks; a line with fewer than 9 commas gives
  no text. (A text that ends in a backslash with no character after it is left out.)
\<close>

theorem ncvisual_subtitle_strips_nine_fields:
  "(subtitle ncv = [] \<longrightarrow> ncvisual_subtitle ncv = Inr None) \<and>
   (subtitle ncv = rect # rects \<and> rect_type rect = SUBTITLE_TEXT \<longrightarrow>
      ncvisual_subtitle ncv = Inr (Some (rect_text rect))) \<and>
   (subtitle ncv = rect # rects \<and> rect_type rect = SUBTITLE_ASS \<and>
    take 9 (rect_ass rect) = ''Dialogue:'' \<and> strip_fields 9 (rect_ass rect) = None \<longrightarrow>
      ncvisual_subtitle ncv = Inr None) \<and>
   (subtitle ncv = rect # rects \<and> rect_type rect = SUBTITLE_ASS \<and>
    take 9 (rect_ass rect) = ''Dialogue:'' \<and> strip_fields 9 (rect_ass rect) = Some rest \<and>
    \<not> lone_backslash rest \<longrightarrow>
      ncvisual_subtitle ncv = Inr (Some (blank_escapes rest)))"
  by (simp add: ncvisual_subtitle_def deass_spec)

theorem ncvisual_subtitle_strips_nine_fields_witness:
  "ncvisual_subtitle (subtitled []) = Inr None \<and>
   ncvisual_subtitle (subtitled [\<lparr>rect_type = SUBTITLE_TEXT, rect_text = ''plain'', rect_ass = []\<rparr>])
     = Inr (Some ''plain'') \<and>
   ncvisual_subtitle (subtitled [\<lparr>rect_type = SUBTITLE_ASS, rect_text = [],
      rect_ass = ''Dialogue: 0,1,2,3,4,5,6,7''\<rparr>]) = Inr None \<and>
   ncvisual_subtitle (subtitled [\<lparr>rect_type = SUBTITLE_ASS, rect_text = [],
      rect_ass = styled_line\<rparr>]) = Inr (Some ''{  1}Bonjour'')"
proof -
  let ?t = "\<lparr>rect_type = SUBTITLE_TEXT, rect_text = ''plain'', rect_ass = []\<rparr>"
  let ?s = "\<lparr>rect_type = SUBTITLE_ASS, rect_text = [], rect_ass = ''Dialogue: 0,1,2,3,4,5,6,7''\<rparr>"
  let ?a = "\<lparr>rect_type = SUBTITLE_ASS, rect_text = [], rect_ass = styled_line\<rparr>"
  have s: "take 9 ''Dialogue: 0,1,2,3,4,5,6,7'' = ''Dialogue:''"
    "strip_fields 9 ''Dialogue: 0,1,2,3,4,5,6,7'' = None"
    by code_simp+
  have a: "take 9 styled_line = ''Dialogue:''"
    "strip_fields 9 styled_line = Some (''{'' @ [CHR 0x5C] @ ''i1}Bonjour'')"
    "\<not> lone_backslash (''{'' @ [CHR 0x5C] @ ''i1}Bonjour'')"
    "blank_escapes (''{'' @ [CHR 0x5C] @ ''i1}Bonjour'') = ''{  1}Bonjour''"
    by code_simp+
  from ncvisual_subtitle_strips_nine_fields [of "subtitled []"]
    ncvisual_subtitle_strips_nine_fields [of "subtitled [?t]" ?t "[]"]
    ncvisual_subtitle_strips_nine_fields [of "subtitled [?s]" ?s "[]"]
    ncvisual_subtitle_strips_nine_fields [of "subtitled [?a]" ?a "[]" "''{'' @ [CHR 0x5C] @ ''i1}Bonjour''"]
    s a
  show ?thesis
    by (simp add: subtitled_def)
qed

subsection \<open>C2: the counter of packets in flight\<close>

text \<open>
  Claim C2 says that \<open>packet_outstanding\<close> never exceeds 1, also across the retry
  after a failed \<^verbatim>\<open>avcodec_send_packet\<close>. When the first send is refused,
  \<open>ncvisual_decode\<close> calls itself with the counter at 1, leaves the inner loop by
  \<^verbatim>\<open>break\<close> and increments the counter again: the packet is sent a second time with
  the counter at 2, and the call returns with the counter at 1 and the packet released.
\<close>

theorem ncvisual_decode_retry_counts_two:
  "ncvisual_decode 6 av_refuses_once (avstate0, opened) =
     Some (NCERR_SUCCESS,
           \<lparr>n_reads = 1, n_sends = 2, n_receives = 1, unit_held = False,
            packet_stream_index = 0,
            calls = [Av_read False, Av_send 1, Av_send 2, Av_unref, Av_receive]\<rparr>,
           opened\<lparr>packet_outstanding := 1\<rparr>)"
  by code_simp

subsection \<open>C7: a callback that stops the stream\<close>

lemma callback_results_append:
  "callback_results (xs @ ys) = callback_results xs @ callback_results ys"
  by (induction xs rule: callback_results.induct) simp_all

lemma stream_loop_quiet_or_stopped:
  "quiet evs \<Longrightarrow> stream_loop k pl ncerr evs w = (how, ncerr', evs', w') \<Longrightarrow>
   quiet evs' \<or> stopped how evs'"
proof (induction k arbitrary: ncerr evs w)
  case 0
  then show ?case by simp
next
  case (Suc k)
  show ?case
  proof (cases "decode pl w")
    case None
    with Suc.prems show ?thesis by simp
  next
    case d: (Some dw)
    obtain err w1 where dw: "dw = (err, w1)" by (cases dw)
    show ?thesis
    proof (cases "err = NCERR_SUCCESS")
      case False
      with Suc.prems d dw show ?thesis
        by (auto simp: quiet_def callback_results_append)
    next
      case ok: True
      show ?thesis
      proof (cases "render pl w1")
        case None
        with Suc.prems d dw ok show ?thesis
          by (auto simp: quiet_def callback_results_append)
      next
        case r: (Some rw)
        obtain r w2 where rw: "rw = (r, w2)" by (cases rw)
        let ?evs = "evs @ [Decoded err, Rendered r]"
        have q2: "quiet ?evs" using Suc.prems(1) by (simp add: quiet_def callback_results_append)
        show ?thesis
        proof (cases "r < 0")
          case True
          with Suc.prems d dw ok r rw q2 show ?thesis by auto
        next
          case nonneg: False
          show ?thesis
          proof (cases "streamer pl")
            case None
            with Suc.prems d dw ok r rw nonneg
            have "stream_loop k pl err ?evs (pace pl w2) = (how, ncerr', evs', w')" by simp
            from Suc.IH [OF q2 this] show ?thesis .
          next
            case cb: (Some f)
            show ?thesis
            proof (cases "f w2")
              case None
              with Suc.prems d dw ok r rw nonneg cb q2 show ?thesis by auto
            next
              case c: (Some cw)
              obtain c w3 where cw: "cw = (c, w3)" by (cases cw)
              show ?thesis
              proof (cases "c = 0")
                case True
                have q3: "quiet (evs @ [Decoded err, Rendered r, Called c])"
                  using Suc.prems(1) True by (simp add: quiet_def callback_results_append)
                from Suc.prems d dw ok r rw nonneg cb c cw True
                have "stream_loop k pl err (evs @ [Decoded err, Rendered r, Called c]) (pace pl w3) =
                    (how, ncerr', evs', w')" by simp
                from Suc.IH [OF q3 this] show ?thesis .
              next
                case False
                with Suc.prems d dw ok r rw nonneg cb c cw
                have "how = Returned c" "evs' = ?evs @ [Called c]" by simp_all
                with False q2 have "stopped how evs'" unfolding stopped_def by blast
                then show ?thesis ..
              qed
            qed
          qed
        qed
      qed
    qed
  qed
qed

lemma stream_loop_more_fuel:
  "fst (stream_loop k pl ncerr evs w) \<noteq> Out_of_fuel \<Longrightarrow>
   stream_loop (k + j) pl ncerr evs w = stream_loop k pl ncerr evs w"
proof (induction k arbitrary: ncerr evs w)
  case 0
  then show ?case by simp
next
  case (Suc k)
  then show ?case
    by (auto split: option.splits prod.splits if_splits)
qed

text \<open>
  Claim C7. Whatever the frames and the callback are: when the \<open>K\<close>-th invocation of
  the callback returns \<open>r\<close> other than 0, \<open>ncvisual_stream\<close> has returned \<open>r\<close>, the
  callback was invoked exactly \<open>K\<close> times, and that invocation is the last event (no
  decode and no render follows it). The run is the one with the fuel at hand, which
  has not run out, and every larger fuel gives the same run.
\<close>

theorem ncvisual_stream_stops_at_nonzero_callback:
  assumes run: "ncvisual_stream fuel pl w = (how, ncerr, evs, w')"
    and K: "0 < K" "K \<le> length (callback_results evs)"
    and r: "callback_results evs ! (K - 1) = r" "r \<noteq> 0"
  shows "how = Returned r \<and> length (callback_results evs) = K \<and> last evs = Called r \<and>
         (\<forall>j. ncvisual_stream (fuel + j) pl w = ncvisual_stream fuel pl w)"
proof -
  have "quiet []" by (simp add: quiet_def)
  from stream_loop_quiet_or_stopped [OF this run [unfolded ncvisual_stream_def]]
  have "quiet evs \<or> stopped how evs" .
  moreover have "\<not> quiet evs"
  proof
    assume "quiet evs"
    moreover from K have "callback_results evs ! (K - 1) \<in> set (callback_results evs)"
      by (intro nth_mem) simp
    ultimately show False using r by (simp add: quiet_def)
  qed
  ultimately obtain c pre where
    c: "c \<noteq> 0" "evs = pre @ [Called c]" "quiet pre" "how = Returned c"
    unfolding stopped_def by blast
  have res: "callback_results evs = callback_results pre @ [c]"
    using c by (simp add: callback_results_append)
  have "\<not> K - 1 < length (callback_results pre)"
  proof
    assume lt: "K - 1 < length (callback_results pre)"
    then have "callback_results evs ! (K - 1) = callback_results pre ! (K - 1)"
      by (simp add: res nth_append)
    moreover from lt have "callback_results pre ! (K - 1) \<in> set (callback_results pre)"
      by simp
    ultimately show False using c(3) r by (simp add: quiet_def)
  qed
  with K have Keq: "K = Suc (length (callback_results pre))" by (simp add: res)
  with r have "r = c" by (simp add: res)
  have "fst (stream_loop fuel pl NCERR_SUCCESS [] (start pl w)) \<noteq> Out_of_fuel"
    using run c by (simp add: ncvisual_stream_def)
  then have "\<forall>j. ncvisual_stream (fuel + j) pl w = ncvisual_stream fuel pl w"
    by (simp add: ncvisual_stream_def stream_loop_more_fuel)
  with c Keq \<open>r = c\<close> res show ?thesis by simp
qed

theorem ncvisual_stream_stops_at_nonzero_callback_witness:
  "fst three_frames = Returned 7 \<and>
   fst (snd (snd three_frames)) =
     [Decoded NCERR_SUCCESS, Rendered 0, Called 0,
      Decoded NCERR_SUCCESS, Rendered 0, Called 0,
      Decoded NCERR_SUCCESS, Rendered 0, Called 7] \<and>
   (0::nat) < 3 \<and> callback_results (fst (snd (snd three_frames))) ! (3 - 1) = 7 \<and>
   length (callback_results (fst (snd (snd three_frames)))) = 3 \<and>
   last (fst (snd (snd three_frames))) = Called 7"
proof -
  have evs: "fst (snd (snd three_frames)) =
     [Decoded NCERR_SUCCESS, Rendered 0, Called 0,
      Decoded NCERR_SUCCESS, Rendered 0, Called 0,
      Decoded NCERR_SUCCESS, Rendered 0, Called 7]"
    by code_simp
  have run: "ncvisual_stream 5 (ffmpeg_player 4 av_plays surface0 1 (Some stop_at_third))
       (avstate0, visual_2x2\<lparr>fmtctx := True\<rparr>, [], 0) =
     (fst three_frames, fst (snd three_frames), fst (snd (snd three_frames)),
      snd (snd (snd three_frames)))"
    by (simp add: three_frames_def)
  from ncvisual_stream_stops_at_nonzero_callback [OF run, of 3 7] evs show ?thesis by simp
qed

subsection \<open>C8: the build with neither backend\<close>

text \<open>
  Claim C8 says that every entry point of the build with neither backend reports an
  Unimplemented error. \<open>ncvisual_stream\<close> and \<open>ncvisual_from_file\<close> return \<open>-1\<close> and
  null and leave \<^verbatim>\<open>*ncerr\<close> as it was: a caller that stored \<open>NCERR_SUCCESS\<close> there
  finds \<open>NCERR_SUCCESS\<close>.
\<close>

theorem nobackend_stream_not_unimplemented_counterexample:
  "fst (snd (nobackend_ncvisual_stream \<lparr>utf8 = False\<rparr> visual_2x2 NCERR_SUCCESS 1 () ())) \<noteq>
     NCERR_UNIMPLEMENTED \<and>
   snd (nobackend_ncvisual_from_file \<lparr>utf8 = False\<rparr> ''a.png'' NCERR_SUCCESS 0 0 NCSCALE_NONE) \<noteq>
     NCERR_UNIMPLEMENTED"
  by (simp add: nobackend_ncvisual_stream_def nobackend_ncvisual_from_file_def)

text \<open>
  Claim C8, amended. In the build with neither backend \<open>ncvisual_decode\<close> returns
  \<open>NCERR_UNIMPLEMENTED\<close>; \<open>ncvisual_stream\<close> returns \<open>-1\<close>, \<open>ncplane_visual_open\<close> and
  \<open>ncvisual_from_file\<close> return null, all three without storing anything in
  \<^verbatim>\<open>*ncerr\<close>; \<open>ncvisual_subtitle\<close> returns null; both capability queries return false.
\<close>

theorem nobackend_entry_points:
  "fst (nobackend_ncvisual_decode ncv) = NCERR_UNIMPLEMENTED \<and>
   nobackend_ncvisual_stream nc ncv ncerr ts cb cur = (- 1, ncerr, ncv) \<and>
   nobackend_ncplane_visual_open n filename ncerr = (None, ncerr) \<and>
   nobackend_ncvisual_from_file nc filename ncerr y x scale = (None, ncerr) \<and>
   nobackend_ncvisual_subtitle ncv = None \<and>
   notcurses_canopen_images NO_BACKEND nc = False \<and>
   notcurses_canopen_videos NO_BACKEND nc = False"
  by (simp add: nobackend_ncvisual_decode_def nobackend_ncvisual_stream_def
      nobackend_ncplane_visual_open_def nobackend_ncvisual_from_file_def
      nobackend_ncvisual_subtitle_def)

theorem nobackend_entry_points_witness:
  "fst (nobackend_ncvisual_decode visual_2x2) = NCERR_UNIMPLEMENTED \<and>
   nobackend_ncvisual_stream \<lparr>utf8 = False\<rparr> visual_2x2 NCERR_SUCCESS 1 () () =
     (- 1, NCERR_SUCCESS, visual_2x2) \<and>
   nobackend_ncvisual_from_file \<lparr>utf8 = False\<rparr> ''a.png'' NCERR_SUCCESS 0 0 NCSCALE_NONE =
     (None, NCERR_SUCCESS) \<and>
   notcurses_canopen_images NO_BACKEND \<lparr>utf8 = False\<rparr> = False \<and>
   notcurses_canopen_videos NO_BACKEND \<lparr>utf8 = False\<rparr> = False"
  using nobackend_entry_points [of visual_2x2 "\<lparr>utf8 = False\<rparr>" NCERR_SUCCESS 1 "()" "()"
      "\<lparr>plane_leny = 1, plane_lenx = 1\<rparr>" "''a.png''" 0 0 NCSCALE_NONE]
  by simp

end
